theory Spec2Isabelle
  imports Main "HOL-Library.Sublist"
begin

section \<open>chess\_game.py: pieces, moves and the board\<close>

datatype PieceType = PAWN | ROOK | KNIGHT | BISHOP | QUEEN | KING

datatype Color = WHITE | BLACK

text \<open>class Piece: the fields \<open>type\<close>, \<open>color\<close> and \<open>has_moved\<close>.\<close>

record Piece =
  ptype :: PieceType
  pcolor :: Color
  has_moved :: bool

text \<open>\<open>Piece(piece_type, color)\<close>: a new piece has not moved.\<close>

definition new_Piece :: "PieceType \<Rightarrow> Color \<Rightarrow> Piece" where
  "new_Piece piece_type side = \<lparr>ptype = piece_type, pcolor = side, has_moved = False\<rparr>"

text \<open>class Move. Coordinates are Python integers, (row, col) pairs.\<close>

record Move =
  from_pos :: "int \<times> int"
  to_pos :: "int \<times> int"
  promotion :: "PieceType option"
  is_castling :: bool
  is_en_passant :: bool

definition new_Move :: "int \<times> int \<Rightarrow> int \<times> int \<Rightarrow> Move" where
  "new_Move f t =
     \<lparr>from_pos = f, to_pos = t, promotion = None, is_castling = False, is_en_passant = False\<rparr>"

text \<open>\<open>Move.__eq__\<close>: origin, destination and promotion; the two flags are not compared.\<close>

definition move_eq :: "Move \<Rightarrow> Move \<Rightarrow> bool" where
  "move_eq m other \<longleftrightarrow>
     from_pos m = from_pos other \<and> to_pos m = to_pos other \<and> promotion m = promotion other"

text \<open>\<open>move in moves\<close>: Python's list membership, decided by \<open>__eq__\<close>.\<close>

definition move_in :: "Move \<Rightarrow> Move list \<Rightarrow> bool" where
  "move_in m moves \<longleftrightarrow> list_ex (move_eq m) moves"

text \<open>
  class ChessBoard. The grid is a list of eight rows of eight optional pieces, as
  \<open>__init__\<close> builds it; \<open>set_piece\<close> only replaces entries, so the shape never changes.
\<close>

record ChessBoard =
  board :: "Piece option list list"
  current_player :: Color
  move_history :: "Move list"
  en_passant_target :: "(int \<times> int) option"
  halfmove_clock :: int
  fullmove_number :: int

definition is_valid_position :: "int \<Rightarrow> int \<Rightarrow> bool" where
  "is_valid_position row col \<longleftrightarrow> 0 \<le> row \<and> row < 8 \<and> 0 \<le> col \<and> col < 8"

definition get_piece :: "ChessBoard \<Rightarrow> int \<Rightarrow> int \<Rightarrow> Piece option" where
  "get_piece b row col =
     (if 0 \<le> row \<and> row < 8 \<and> 0 \<le> col \<and> col < 8 then board b ! nat row ! nat col else None)"

definition set_piece :: "ChessBoard \<Rightarrow> int \<Rightarrow> int \<Rightarrow> Piece option \<Rightarrow> ChessBoard" where
  "set_piece b row col piece =
     (if 0 \<le> row \<and> row < 8 \<and> 0 \<le> col \<and> col < 8
      then b\<lparr>board := (board b)[nat row := (board b ! nat row)[nat col := piece]]\<rparr>
      else b)"

text \<open>\<open>setup_initial_position\<close> on the empty grid of \<open>__init__\<close>.\<close>

definition piece_order :: "PieceType list" where
  "piece_order = [ROOK, KNIGHT, BISHOP, QUEEN, KING, BISHOP, KNIGHT, ROOK]"

definition initial_grid :: "Piece option list list" where
  "initial_grid =
     [map (\<lambda>t. Some (new_Piece t BLACK)) piece_order,
      replicate 8 (Some (new_Piece PAWN BLACK)),
      replicate 8 None, replicate 8 None, replicate 8 None, replicate 8 None,
      replicate 8 (Some (new_Piece PAWN WHITE)),
      map (\<lambda>t. Some (new_Piece t WHITE)) piece_order]"

definition new_ChessBoard :: ChessBoard where
  "new_ChessBoard =
     \<lparr>board = initial_grid, current_player = WHITE, move_history = [],
      en_passant_target = None, halfmove_clock = 0, fullmove_number = 1\<rparr>"

text \<open>The squares in the order of the two nested \<open>range(8)\<close> loops.\<close>

definition all_squares :: "(int \<times> int) list" where
  "all_squares = concat (map (\<lambda>row. map (\<lambda>col. (row, col)) [0..7]) [0..7])"

definition get_all_pieces :: "ChessBoard \<Rightarrow> Color \<Rightarrow> (int \<times> int \<times> Piece) list" where
  "get_all_pieces b side =
     concat (map (\<lambda>(row, col).
       (case board b ! nat row ! nat col of
          Some piece \<Rightarrow> if pcolor piece = side then [(row, col, piece)] else []
        | None \<Rightarrow> [])) all_squares)"

definition find_king :: "ChessBoard \<Rightarrow> Color \<Rightarrow> (int \<times> int) option" where
  "find_king b side =
     find (\<lambda>(row, col).
       (case board b ! nat row ! nat col of
          Some piece \<Rightarrow> ptype piece = KING \<and> pcolor piece = side
        | None \<Rightarrow> False)) all_squares"

subsection \<open>Attack geometry\<close>

definition can_pawn_attack :: "int \<Rightarrow> int \<Rightarrow> int \<Rightarrow> int \<Rightarrow> Color \<Rightarrow> bool" where
  "can_pawn_attack from_row from_col to_row to_col side =
     (let direction = (if side = WHITE then -1 else 1)
      in to_row = from_row + direction \<and> \<bar>to_col - from_col\<bar> = 1)"

definition can_knight_move :: "int \<Rightarrow> int \<Rightarrow> int \<Rightarrow> int \<Rightarrow> bool" where
  "can_knight_move from_row from_col to_row to_col =
     (let row_diff = \<bar>to_row - from_row\<bar>; col_diff = \<bar>to_col - from_col\<bar>
      in (row_diff = 2 \<and> col_diff = 1) \<or> (row_diff = 1 \<and> col_diff = 2))"

definition can_king_move :: "int \<Rightarrow> int \<Rightarrow> int \<Rightarrow> int \<Rightarrow> bool" where
  "can_king_move from_row from_col to_row to_col \<longleftrightarrow>
     \<bar>to_row - from_row\<bar> \<le> 1 \<and> \<bar>to_col - from_col\<bar> \<le> 1"

text \<open>
  The \<open>while\<close> loop of \<open>is_path_clear\<close>. It stops when the walk reaches the target or meets
  a piece; a walk that misses the target leaves the board, reads \<open>None\<close> for ever and
  never returns, which is the value \<open>None\<close> here.
\<close>

partial_function (option) path_loop ::
  "ChessBoard \<Rightarrow> int \<Rightarrow> int \<Rightarrow> int \<Rightarrow> int \<Rightarrow> int \<Rightarrow> int \<Rightarrow> bool option" where
  "path_loop b row_step col_step to_row to_col current_row current_col =
     (if (current_row, current_col) \<noteq> (to_row, to_col)
      then (if get_piece b current_row current_col \<noteq> None then Some False
            else path_loop b row_step col_step to_row to_col
                   (current_row + row_step) (current_col + col_step))
      else Some True)"

declare path_loop.simps [code]

definition is_path_clear :: "ChessBoard \<Rightarrow> int \<Rightarrow> int \<Rightarrow> int \<Rightarrow> int \<Rightarrow> bool option" where
  "is_path_clear b from_row from_col to_row to_col =
     (let row_step = (if from_row = to_row then 0 else if to_row > from_row then 1 else -1);
          col_step = (if from_col = to_col then 0 else if to_col > from_col then 1 else -1)
      in path_loop b row_step col_step to_row to_col (from_row + row_step) (from_col + col_step))"

text \<open>
  \<open>can_rook_move\<close> and \<open>can_bishop_move\<close> call \<open>is_path_clear\<close> only on a straight or a
  diagonal line, where the walk returns (lemmas \<open>is_path_clear_straight\<close> and
  \<open>is_path_clear_diagonal\<close> below), so \<open>the\<close> reads a value that is there.
\<close>

definition can_rook_move :: "ChessBoard \<Rightarrow> int \<Rightarrow> int \<Rightarrow> int \<Rightarrow> int \<Rightarrow> bool" where
  "can_rook_move b from_row from_col to_row to_col =
     (if from_row \<noteq> to_row \<and> from_col \<noteq> to_col then False
      else the (is_path_clear b from_row from_col to_row to_col))"

definition can_bishop_move :: "ChessBoard \<Rightarrow> int \<Rightarrow> int \<Rightarrow> int \<Rightarrow> int \<Rightarrow> bool" where
  "can_bishop_move b from_row from_col to_row to_col =
     (if \<bar>to_row - from_row\<bar> \<noteq> \<bar>to_col - from_col\<bar> then False
      else the (is_path_clear b from_row from_col to_row to_col))"

definition can_piece_attack_square :: "ChessBoard \<Rightarrow> int \<Rightarrow> int \<Rightarrow> int \<Rightarrow> int \<Rightarrow> bool" where
  "can_piece_attack_square b from_row from_col to_row to_col =
     (case get_piece b from_row from_col of
        None \<Rightarrow> False
      | Some piece \<Rightarrow>
          (case ptype piece of
             PAWN \<Rightarrow> can_pawn_attack from_row from_col to_row to_col (pcolor piece)
           | ROOK \<Rightarrow> can_rook_move b from_row from_col to_row to_col
           | KNIGHT \<Rightarrow> can_knight_move from_row from_col to_row to_col
           | BISHOP \<Rightarrow> can_bishop_move b from_row from_col to_row to_col
           | QUEEN \<Rightarrow> can_rook_move b from_row from_col to_row to_col
                      \<or> can_bishop_move b from_row from_col to_row to_col
           | KING \<Rightarrow> can_king_move from_row from_col to_row to_col))"

definition is_square_attacked :: "ChessBoard \<Rightarrow> int \<Rightarrow> int \<Rightarrow> Color \<Rightarrow> bool" where
  "is_square_attacked b row col by_color =
     list_ex (\<lambda>(piece_row, piece_col, piece).
                can_piece_attack_square b piece_row piece_col row col)
             (get_all_pieces b by_color)"

definition is_in_check :: "ChessBoard \<Rightarrow> Color \<Rightarrow> bool" where
  "is_in_check b side =
     (case find_king b side of
        None \<Rightarrow> False
      | Some (king_row, king_col) \<Rightarrow>
          is_square_attacked b king_row king_col (if side = WHITE then BLACK else WHITE))"

subsection \<open>Pseudo-legal move generation\<close>

definition promotion_pieces :: "PieceType list" where
  "promotion_pieces = [QUEEN, ROOK, BISHOP, KNIGHT]"

definition generate_pawn_moves :: "ChessBoard \<Rightarrow> int \<Rightarrow> int \<Rightarrow> Color \<Rightarrow> Move list" where
  "generate_pawn_moves b row col side =
     (let direction = (if side = WHITE then -1 else 1);
          start_row = (if side = WHITE then 6 else 1);
          promotion_row = (if side = WHITE then 0 else 7);
          new_row = row + direction;
          forward =
            (if is_valid_position new_row col \<and> get_piece b new_row col = None
             then (if new_row = promotion_row
                   then map (\<lambda>promotion_piece.
                          (new_Move (row, col) (new_row, col))\<lparr>promotion := Some promotion_piece\<rparr>)
                          promotion_pieces
                   else new_Move (row, col) (new_row, col) #
                        (if row = start_row \<and> get_piece b (new_row + direction) col = None
                         then [new_Move (row, col) (new_row + direction, col)] else []))
             else []);
          captures =
            concat (map (\<lambda>col_offset.
              (let new_col = col + col_offset
               in if is_valid_position new_row new_col
                  then (case get_piece b new_row new_col of
                          Some target_piece \<Rightarrow>
                            (if pcolor target_piece \<noteq> side
                             then (if new_row = promotion_row
                                   then map (\<lambda>promotion_piece.
                                          (new_Move (row, col) (new_row, new_col))
                                            \<lparr>promotion := Some promotion_piece\<rparr>)
                                          promotion_pieces
                                   else [new_Move (row, col) (new_row, new_col)])
                             else [])
                        | None \<Rightarrow> [])
                       @ (if en_passant_target b = Some (new_row, new_col)
                          then [(new_Move (row, col) (new_row, new_col))\<lparr>is_en_passant := True\<rparr>]
                          else [])
                  else [])) [-1, 1])
      in forward @ captures)"

text \<open>
  The inner loop \<open>for i in range(1, 8)\<close> of \<open>generate_rook_moves\<close> and
  \<open>generate_bishop_moves\<close> (the same text in both): walk one ray, \<open>break\<close> at the edge and at
  the first piece. \<open>self.get_piece(row, col).color\<close> is the colour of the moving piece; the
  generators are only called on squares that \<open>get_all_pieces\<close> found occupied.
\<close>

fun ray_moves :: "ChessBoard \<Rightarrow> int \<Rightarrow> int \<Rightarrow> int \<Rightarrow> int \<Rightarrow> int list \<Rightarrow> Move list" where
  "ray_moves b row col row_dir col_dir [] = []"
| "ray_moves b row col row_dir col_dir (i # rest) =
     (let new_row = row + i * row_dir; new_col = col + i * col_dir
      in if \<not> is_valid_position new_row new_col then []
         else (case get_piece b new_row new_col of
                 Some target_piece \<Rightarrow>
                   (if pcolor target_piece \<noteq> pcolor (the (get_piece b row col))
                    then [new_Move (row, col) (new_row, new_col)] else [])
               | None \<Rightarrow>
                   new_Move (row, col) (new_row, new_col)
                     # ray_moves b row col row_dir col_dir rest))"

definition generate_rook_moves :: "ChessBoard \<Rightarrow> int \<Rightarrow> int \<Rightarrow> Move list" where
  "generate_rook_moves b row col =
     concat (map (\<lambda>(row_dir, col_dir). ray_moves b row col row_dir col_dir [1..7])
                 [(0, 1), (0, -1), (1, 0), (-1, 0)])"

definition generate_knight_moves :: "ChessBoard \<Rightarrow> int \<Rightarrow> int \<Rightarrow> Move list" where
  "generate_knight_moves b row col =
     concat (map (\<lambda>(row_offset, col_offset).
       (let new_row = row + row_offset; new_col = col + col_offset
        in if is_valid_position new_row new_col
           then (case get_piece b new_row new_col of
                   None \<Rightarrow> [new_Move (row, col) (new_row, new_col)]
                 | Some target_piece \<Rightarrow>
                     (if pcolor target_piece \<noteq> pcolor (the (get_piece b row col))
                      then [new_Move (row, col) (new_row, new_col)] else []))
           else []))
       [(2, 1), (2, -1), (-2, 1), (-2, -1), (1, 2), (1, -2), (-1, 2), (-1, -2)])"

definition generate_bishop_moves :: "ChessBoard \<Rightarrow> int \<Rightarrow> int \<Rightarrow> Move list" where
  "generate_bishop_moves b row col =
     concat (map (\<lambda>(row_dir, col_dir). ray_moves b row col row_dir col_dir [1..7])
                 [(1, 1), (1, -1), (-1, 1), (-1, -1)])"

definition generate_queen_moves :: "ChessBoard \<Rightarrow> int \<Rightarrow> int \<Rightarrow> Move list" where
  "generate_queen_moves b row col = generate_rook_moves b row col @ generate_bishop_moves b row col"

definition generate_king_moves :: "ChessBoard \<Rightarrow> int \<Rightarrow> int \<Rightarrow> Color \<Rightarrow> Move list" where
  "generate_king_moves b row col side =
     (let regular =
            concat (map (\<lambda>row_offset. concat (map (\<lambda>col_offset.
              (if row_offset = 0 \<and> col_offset = 0 then []
               else (let new_row = row + row_offset; new_col = col + col_offset
                     in if is_valid_position new_row new_col
                        then (case get_piece b new_row new_col of
                                None \<Rightarrow> [new_Move (row, col) (new_row, new_col)]
                              | Some target_piece \<Rightarrow>
                                  (if pcolor target_piece \<noteq> side
                                   then [new_Move (row, col) (new_row, new_col)] else []))
                        else []))) [-1, 0, 1])) [-1, 0, 1]);
          king = the (get_piece b row col);
          enemy = (if side = WHITE then BLACK else WHITE);
          castling =
            (if \<not> has_moved king \<and> \<not> is_in_check b side
             then (case get_piece b row 7 of
                     Some rook \<Rightarrow>
                       (if ptype rook = ROOK \<and> \<not> has_moved rook
                           \<and> get_piece b row 5 = None \<and> get_piece b row 6 = None
                           \<and> \<not> is_square_attacked b row 5 enemy
                           \<and> \<not> is_square_attacked b row 6 enemy
                        then [(new_Move (row, col) (row, 6))\<lparr>is_castling := True\<rparr>] else [])
                   | None \<Rightarrow> [])
                  @ (case get_piece b row 0 of
                       Some rook \<Rightarrow>
                         (if ptype rook = ROOK \<and> \<not> has_moved rook
                             \<and> get_piece b row 1 = None \<and> get_piece b row 2 = None
                             \<and> get_piece b row 3 = None
                             \<and> \<not> is_square_attacked b row 2 enemy
                             \<and> \<not> is_square_attacked b row 3 enemy
                          then [(new_Move (row, col) (row, 2))\<lparr>is_castling := True\<rparr>] else [])
                     | None \<Rightarrow> [])
             else [])
      in regular @ castling)"

definition generate_piece_moves :: "ChessBoard \<Rightarrow> int \<Rightarrow> int \<Rightarrow> Piece \<Rightarrow> Move list" where
  "generate_piece_moves b row col piece =
     (case ptype piece of
        PAWN \<Rightarrow> generate_pawn_moves b row col (pcolor piece)
      | ROOK \<Rightarrow> generate_rook_moves b row col
      | KNIGHT \<Rightarrow> generate_knight_moves b row col
      | BISHOP \<Rightarrow> generate_bishop_moves b row col
      | QUEEN \<Rightarrow> generate_queen_moves b row col
      | KING \<Rightarrow> generate_king_moves b row col (pcolor piece))"

subsection \<open>Applying a move\<close>

definition handle_castling :: "ChessBoard \<Rightarrow> Move \<Rightarrow> ChessBoard" where
  "handle_castling b move =
     (let (from_row, from_col) = from_pos move;
          (to_row, to_col) = to_pos move;
          king = get_piece b from_row from_col;
          b1 = set_piece b to_row to_col king;
          b2 = set_piece b1 from_row from_col None
      in if to_col = 6
         then (let rook = get_piece b2 from_row 7;
                   b3 = set_piece b2 from_row 5 rook
               in set_piece b3 from_row 7 None)
         else (let rook = get_piece b2 from_row 0;
                   b3 = set_piece b2 from_row 3 rook
               in set_piece b3 from_row 0 None))"

definition handle_en_passant :: "ChessBoard \<Rightarrow> Move \<Rightarrow> ChessBoard" where
  "handle_en_passant b move =
     (let (from_row, from_col) = from_pos move;
          (to_row, to_col) = to_pos move;
          pawn = get_piece b from_row from_col;
          b1 = set_piece b to_row to_col pawn;
          b2 = set_piece b1 from_row from_col None
      in set_piece b2 from_row to_col None)"

definition update_en_passant_target :: "ChessBoard \<Rightarrow> Move \<Rightarrow> Piece \<Rightarrow> ChessBoard" where
  "update_en_passant_target b move piece =
     (let b1 = b\<lparr>en_passant_target := None\<rparr>
      in if ptype piece = PAWN \<and> \<bar>fst (to_pos move) - fst (from_pos move)\<bar> = 2
         then (let target_row = (fst (from_pos move) + fst (to_pos move)) div 2
               in b1\<lparr>en_passant_target := Some (target_row, snd (to_pos move))\<rparr>)
         else b1)"

text \<open>
  The body of \<open>make_move\<close> after the legality check (from \<open>from_row, from_col = move.from_pos\<close>
  on): what \<open>make_move(move, check_legality=False)\<close> runs. It returns the success flag and
  the board as the call leaves it.
\<close>

definition apply_move :: "ChessBoard \<Rightarrow> Move \<Rightarrow> bool \<times> ChessBoard" where
  "apply_move b move =
     (let (from_row, from_col) = from_pos move;
          (to_row, to_col) = to_pos move
      in case get_piece b from_row from_col of
           None \<Rightarrow> (False, b)
         | Some piece \<Rightarrow>
             (let b1 = (if is_castling move then handle_castling b move
                        else if is_en_passant move then handle_en_passant b move
                        else (let r1 = set_piece b to_row to_col (Some piece);
                                  r2 = set_piece r1 from_row from_col None
                              in (case promotion move of
                                    Some promoted \<Rightarrow>
                                      set_piece r2 to_row to_col
                                        (Some (new_Piece promoted (pcolor piece)))
                                  | None \<Rightarrow> r2)));
                  b2 = (case get_piece b1 to_row to_col of
                          Some moved_piece \<Rightarrow>
                            set_piece b1 to_row to_col (Some (moved_piece\<lparr>has_moved := True\<rparr>))
                        | None \<Rightarrow> b1);
                  b3 = update_en_passant_target b2 move piece;
                  b4 = b3\<lparr>move_history := move_history b3 @ [move]\<rparr>;
                  b5 = (if ptype piece = PAWN \<or> get_piece b4 to_row to_col \<noteq> None
                        then b4\<lparr>halfmove_clock := 0\<rparr>
                        else b4\<lparr>halfmove_clock := halfmove_clock b4 + 1\<rparr>);
                  b6 = (if current_player b5 = BLACK
                        then b5\<lparr>fullmove_number := fullmove_number b5 + 1\<rparr> else b5);
                  b7 = b6\<lparr>current_player := (if current_player b6 = WHITE then BLACK else WHITE)\<rparr>
              in (True, b7)))"

text \<open>
  \<open>is_legal_move\<close>: the move is tried on a deep copy (a value here), and the king of the
  board's side to move is tested on the copy.
\<close>

definition is_legal_move :: "ChessBoard \<Rightarrow> Move \<Rightarrow> bool" where
  "is_legal_move b move =
     (let temp_board = snd (apply_move b move)
      in \<not> is_in_check temp_board (current_player b))"

definition generate_legal_moves :: "ChessBoard \<Rightarrow> Color \<Rightarrow> Move list" where
  "generate_legal_moves b side =
     concat (map (\<lambda>(row, col, piece). filter (is_legal_move b) (generate_piece_moves b row col piece))
                 (get_all_pieces b side))"

definition make_move :: "ChessBoard \<Rightarrow> Move \<Rightarrow> bool \<Rightarrow> bool \<times> ChessBoard" where
  "make_move b move check_legality =
     (if check_legality \<and> \<not> move_in move (generate_legal_moves b (current_player b))
      then (False, b)
      else apply_move b move)"

subsection \<open>Terminal classifier\<close>

definition is_checkmate :: "ChessBoard \<Rightarrow> Color \<Rightarrow> bool" where
  "is_checkmate b side \<longleftrightarrow> is_in_check b side \<and> length (generate_legal_moves b side) = 0"

definition is_stalemate :: "ChessBoard \<Rightarrow> Color \<Rightarrow> bool" where
  "is_stalemate b side \<longleftrightarrow> \<not> is_in_check b side \<and> length (generate_legal_moves b side) = 0"

definition is_game_over :: "ChessBoard \<Rightarrow> bool \<times> string option" where
  "is_game_over b =
     (if is_checkmate b (current_player b)
      then (let winner = (if current_player b = BLACK then ''White'' else ''Black'')
            in (True, Some (''Checkmate! '' @ winner @ '' wins!'')))
      else if is_stalemate b (current_player b) then (True, Some ''Stalemate! It's a draw!'')
      else if halfmove_clock b \<ge> 100 then (True, Some ''Draw by 50-move rule!'')
      else (False, None))"

section \<open>chess\_bot.py: evaluation and search\<close>

text \<open>
  class ChessBot: the colour it plays and the difficulty. The piece values and the
  piece-square tables are constants of the class. The node counter, the clock and the
  two \<open>print\<close> calls of \<open>get_best_move\<close> are diagnostics and are left out.
\<close>

record ChessBot =
  color :: Color
  difficulty :: int

text \<open>\<open>ChessBot.__init__\<close>: the difficulty is clamped.\<close>

definition new_ChessBot :: "Color \<Rightarrow> int \<Rightarrow> ChessBot" where
  "new_ChessBot side d = \<lparr>color = side, difficulty = max 1 (min d 6)\<rparr>"

fun piece_values :: "PieceType \<Rightarrow> int" where
  "piece_values PAWN = 100"
| "piece_values KNIGHT = 320"
| "piece_values BISHOP = 330"
| "piece_values ROOK = 500"
| "piece_values QUEEN = 900"
| "piece_values KING = 20000"

definition pawn_table :: "int list list" where
  "pawn_table =
    [[0,  0,  0,  0,  0,  0,  0,  0],
     [50, 50, 50, 50, 50, 50, 50, 50],
     [10, 10, 20, 30, 30, 20, 10, 10],
     [5,  5, 10, 25, 25, 10,  5,  5],
     [0,  0,  0, 20, 20,  0,  0,  0],
     [5, -5,-10,  0,  0,-10, -5,  5],
     [5, 10, 10,-20,-20, 10, 10,  5],
     [0,  0,  0,  0,  0,  0,  0,  0]]"

definition knight_table :: "int list list" where
  "knight_table =
    [[-50,-40,-30,-30,-30,-30,-40,-50],
     [-40,-20,  0,  0,  0,  0,-20,-40],
     [-30,  0, 10, 15, 15, 10,  0,-30],
     [-30,  5, 15, 20, 20, 15,  5,-30],
     [-30,  0, 15, 20, 20, 15,  0,-30],
     [-30,  5, 10, 15, 15, 10,  5,-30],
     [-40,-20,  0,  5,  5,  0,-20,-40],
     [-50,-40,-30,-30,-30,-30,-40,-50]]"

definition bishop_table :: "int list list" where
  "bishop_table =
    [[-20,-10,-10,-10,-10,-10,-10,-20],
     [-10,  0,  0,  0,  0,  0,  0,-10],
     [-10,  0,  5, 10, 10,  5,  0,-10],
     [-10,  5,  5, 10, 10,  5,  5,-10],
     [-10,  0, 10, 10, 10, 10,  0,-10],
     [-10, 10, 10, 10, 10, 10, 10,-10],
     [-10,  5,  0,  0,  0,  0,  5,-10],
     [-20,-10,-10,-10,-10,-10,-10,-20]]"

definition rook_table :: "int list list" where
  "rook_table =
    [[0,  0,  0,  0,  0,  0,  0,  0],
     [5, 10, 10, 10, 10, 10, 10,  5],
     [-5,  0,  0,  0,  0,  0,  0, -5],
     [-5,  0,  0,  0,  0,  0,  0, -5],
     [-5,  0,  0,  0,  0,  0,  0, -5],
     [-5,  0,  0,  0,  0,  0,  0, -5],
     [-5,  0,  0,  0,  0,  0,  0, -5],
     [0,  0,  0,  5,  5,  0,  0,  0]]"

definition queen_table :: "int list list" where
  "queen_table =
    [[-20,-10,-10, -5, -5,-10,-10,-20],
     [-10,  0,  0,  0,  0,  0,  0,-10],
     [-10,  0,  5,  5,  5,  5,  0,-10],
     [-5,  0,  5,  5,  5,  5,  0, -5],
     [0,  0,  5,  5,  5,  5,  0, -5],
     [-10,  5,  5,  5,  5,  5,  0,-10],
     [-10,  0,  5,  0,  0,  0,  0,-10],
     [-20,-10,-10, -5, -5,-10,-10,-20]]"

definition king_middle_game_table :: "int list list" where
  "king_middle_game_table =
    [[-30,-40,-40,-50,-50,-40,-40,-30],
     [-30,-40,-40,-50,-50,-40,-40,-30],
     [-30,-40,-40,-50,-50,-40,-40,-30],
     [-30,-40,-40,-50,-50,-40,-40,-30],
     [-20,-30,-30,-40,-40,-30,-30,-20],
     [-10,-20,-20,-20,-20,-20,-20,-10],
     [20, 20,  0,  0,  0,  0, 20, 20],
     [20, 30, 10,  0,  0, 10, 30, 20]]"

definition get_piece_value :: "Piece \<Rightarrow> int \<Rightarrow> int \<Rightarrow> int" where
  "get_piece_value piece row col =
     (let base_value = piece_values (ptype piece);
          table_row = (if pcolor piece = WHITE then row else 7 - row);
          positional_bonus =
            (case ptype piece of
               PAWN \<Rightarrow> pawn_table ! nat table_row ! nat col
             | KNIGHT \<Rightarrow> knight_table ! nat table_row ! nat col
             | BISHOP \<Rightarrow> bishop_table ! nat table_row ! nat col
             | ROOK \<Rightarrow> rook_table ! nat table_row ! nat col
             | QUEEN \<Rightarrow> queen_table ! nat table_row ! nat col
             | KING \<Rightarrow> king_middle_game_table ! nat table_row ! nat col)
      in base_value + positional_bonus)"

text \<open>\<open>copy_board\<close>: \<open>copy.deepcopy\<close> of a board; a value is its own copy.\<close>

definition copy_board :: "ChessBoard \<Rightarrow> ChessBoard" where
  "copy_board b = b"

text \<open>
  \<open>evaluate_position\<close> writes to the board it is given: it sets \<open>current_player\<close> to the
  opponent, counts the opponent's moves and writes the saved player back. The function
  returns the score and the board as the call leaves it. \<open>material_score\<close> is its first
  loop, over the 64 squares.
\<close>

definition material_score :: "ChessBot \<Rightarrow> ChessBoard \<Rightarrow> int" where
  "material_score self b =
     fold (\<lambda>(row, col) score.
            (case get_piece b row col of
               Some piece \<Rightarrow>
                 (let piece_value = get_piece_value piece row col
                  in if pcolor piece = color self then score + piece_value
                     else score - piece_value)
             | None \<Rightarrow> score)) all_squares 0"

definition evaluate_position :: "ChessBot \<Rightarrow> ChessBoard \<Rightarrow> int \<times> ChessBoard" where
  "evaluate_position self b =
     (let score0 = material_score self b;
          our_moves = int (length (generate_legal_moves b (color self)));
          opponent_color = (if color self = WHITE then BLACK else WHITE);
          original_player = current_player b;
          b1 = b\<lparr>current_player := opponent_color\<rparr>;
          opponent_moves = int (length (generate_legal_moves b1 opponent_color));
          b2 = b1\<lparr>current_player := original_player\<rparr>;
          score1 = score0 + (our_moves - opponent_moves) * 10;
          score2 = (if is_in_check b2 (color self) then score1 - 50 else score1);
          score3 = (if is_in_check b2 opponent_color then score2 + 50 else score2)
      in (score3, b2))"

text \<open>The key function \<open>move_priority\<close> of \<open>order_moves\<close>.\<close>

definition move_priority :: "ChessBot \<Rightarrow> ChessBoard \<Rightarrow> Move \<Rightarrow> int" where
  "move_priority self b move =
     (let score0 =
            (case get_piece b (fst (to_pos move)) (snd (to_pos move)) of
               Some target_piece \<Rightarrow>
                 (case get_piece b (fst (from_pos move)) (snd (from_pos move)) of
                    Some attacker \<Rightarrow>
                      piece_values (ptype target_piece)
                        + (piece_values (ptype target_piece) - piece_values (ptype attacker))
                  | None \<Rightarrow> piece_values (ptype target_piece))
             | None \<Rightarrow> 0);
          score1 = (case promotion move of
                      Some promoted \<Rightarrow> score0 + piece_values promoted
                    | None \<Rightarrow> score0);
          temp_board = snd (make_move (copy_board b) move False);
          opponent_color = (if color self = WHITE then BLACK else WHITE)
      in if is_in_check temp_board opponent_color then score1 + 100 else score1)"

text \<open>
  \<open>sorted(moves, key=move_priority, reverse=True)\<close>: a stable sort by descending key, which
  is the stable ascending sort by the negated key.
\<close>

definition order_moves :: "ChessBot \<Rightarrow> ChessBoard \<Rightarrow> Move list \<Rightarrow> Move list" where
  "order_moves self b moves = sort_key (\<lambda>move. - move_priority self b move) moves"

subsection \<open>Scores: Python integers and the two infinities\<close>

datatype score = NegInf | Fin int | PosInf

instantiation score :: linorder
begin

fun less_eq_score :: "score \<Rightarrow> score \<Rightarrow> bool" where
  "less_eq_score NegInf y = True"
| "less_eq_score (Fin x) NegInf = False"
| "less_eq_score (Fin x) (Fin y) = (x \<le> y)"
| "less_eq_score (Fin x) PosInf = True"
| "less_eq_score PosInf NegInf = False"
| "less_eq_score PosInf (Fin y) = False"
| "less_eq_score PosInf PosInf = True"

definition less_score :: "score \<Rightarrow> score \<Rightarrow> bool" where
  "less_score x y \<longleftrightarrow> x \<le> y \<and> \<not> y \<le> x"

instance
proof
  fix x y z :: score
  show "(x < y) = (x \<le> y \<and> \<not> y \<le> x)" by (simp add: less_score_def)
  show "x \<le> x" by (cases x) auto
  show "x \<le> y \<Longrightarrow> y \<le> z \<Longrightarrow> x \<le> z" by (cases x; cases y; cases z) auto
  show "x \<le> y \<Longrightarrow> y \<le> x \<Longrightarrow> x = y" by (cases x; cases y) auto
  show "x \<le> y \<or> y \<le> x" by (cases x; cases y) auto
qed

end

subsection \<open>Minimax with alpha-beta pruning\<close>

text \<open>The branch \<open>if game_over:\<close> of \<open>minimax\<close>; \<open>in\<close> on strings is the substring test.\<close>

definition terminal_score :: "ChessBot \<Rightarrow> string \<Rightarrow> nat \<Rightarrow> score" where
  "terminal_score self result depth =
     (if sublist ''wins'' result
      then (if (color self = WHITE \<and> sublist ''White wins'' result)
               \<or> (color self = BLACK \<and> sublist ''Black wins'' result)
            then Fin (10000 + int depth)
            else Fin (- 10000 - int depth))
      else Fin 0)"

text \<open>
  The two \<open>for\<close> loops of \<open>minimax\<close>. \<open>rec\<close> is the recursive call on the copy at depth - 1;
  \<open>break\<close> leaves the loop with the value reached.
\<close>

fun max_loop ::
  "(ChessBoard \<Rightarrow> score \<Rightarrow> score \<Rightarrow> score) \<Rightarrow> ChessBoard \<Rightarrow> Move list
     \<Rightarrow> score \<Rightarrow> score \<Rightarrow> score \<Rightarrow> score" where
  "max_loop rec b [] alpha beta max_eval = max_eval"
| "max_loop rec b (move # rest) alpha beta max_eval =
     (let temp_board = snd (make_move (copy_board b) move False);
          eval_score = rec temp_board alpha beta;
          max_eval' = max max_eval eval_score;
          alpha' = max alpha eval_score
      in if beta \<le> alpha' then max_eval'
         else max_loop rec b rest alpha' beta max_eval')"

fun min_loop ::
  "(ChessBoard \<Rightarrow> score \<Rightarrow> score \<Rightarrow> score) \<Rightarrow> ChessBoard \<Rightarrow> Move list
     \<Rightarrow> score \<Rightarrow> score \<Rightarrow> score \<Rightarrow> score" where
  "min_loop rec b [] alpha beta min_eval = min_eval"
| "min_loop rec b (move # rest) alpha beta min_eval =
     (let temp_board = snd (make_move (copy_board b) move False);
          eval_score = rec temp_board alpha beta;
          min_eval' = min min_eval eval_score;
          beta' = min beta eval_score
      in if beta' \<le> alpha then min_eval'
         else min_loop rec b rest alpha beta' min_eval')"

text \<open>
  \<open>minimax\<close>. The depth is a natural number: \<open>get_best_move\<close> starts it at
  \<open>difficulty - 1\<close>, which \<open>__init__\<close> keeps between 0 and 5, and each call passes depth - 1
  after the test \<open>depth == 0\<close>.
\<close>

fun minimax :: "ChessBot \<Rightarrow> ChessBoard \<Rightarrow> nat \<Rightarrow> score \<Rightarrow> score \<Rightarrow> bool \<Rightarrow> score" where
  "minimax self b 0 alpha beta maximizing =
     (case is_game_over b of
        (True, result) \<Rightarrow> terminal_score self (the result) 0
      | (False, result) \<Rightarrow> Fin (fst (evaluate_position self b)))"
| "minimax self b (Suc d) alpha beta maximizing =
     (case is_game_over b of
        (True, result) \<Rightarrow> terminal_score self (the result) (Suc d)
      | (False, result) \<Rightarrow>
          (let current_color = current_player b;
               legal_moves = generate_legal_moves b current_color
           in if legal_moves = [] then Fin 0
              else if maximizing
              then max_loop (\<lambda>temp_board a be. minimax self temp_board d a be False)
                     b (order_moves self b legal_moves) alpha beta NegInf
              else min_loop (\<lambda>temp_board a be. minimax self temp_board d a be True)
                     b (order_moves self b legal_moves) alpha beta PosInf))"

text \<open>
  The loop of \<open>get_best_move\<close> over the ordered moves, with \<open>best_move\<close>, \<open>best_score\<close> and
  \<open>alpha\<close> as it updates them; \<open>beta\<close> stays at infinity.
\<close>

fun best_move_loop ::
  "ChessBot \<Rightarrow> ChessBoard \<Rightarrow> Move list \<Rightarrow> Move option \<Rightarrow> score \<Rightarrow> score \<Rightarrow> score
     \<Rightarrow> Move option \<times> score" where
  "best_move_loop self b [] best_move best_score alpha beta = (best_move, best_score)"
| "best_move_loop self b (move # rest) best_move best_score alpha beta =
     (let temp_board = snd (make_move (copy_board b) move False);
          score = minimax self temp_board (nat (difficulty self - 1)) alpha beta False;
          best_score' = (if score > best_score then score else best_score);
          best_move' = (if score > best_score then Some move else best_move);
          alpha' = max alpha score
      in if beta \<le> alpha' then (best_move', best_score')
         else best_move_loop self b rest best_move' best_score' alpha' beta)"

text \<open>
  \<open>get_best_move\<close>. \<open>rnd\<close> is the index that \<open>random.choice\<close> draws at difficulty 1 (any
  index below the length of the list). The search returns the move and the score it
  prints as the best move's evaluation.
\<close>

definition search_best_move :: "ChessBot \<Rightarrow> ChessBoard \<Rightarrow> Move list \<Rightarrow> Move option \<times> score" where
  "search_best_move self b legal_moves =
     best_move_loop self b (order_moves self b legal_moves) None NegInf NegInf PosInf"

definition get_best_move :: "ChessBot \<Rightarrow> ChessBoard \<Rightarrow> nat \<Rightarrow> Move option" where
  "get_best_move self b rnd =
     (let legal_moves = generate_legal_moves b (color self)
      in if legal_moves = [] then None
         else if difficulty self = 1 then Some (legal_moves ! (rnd mod length legal_moves))
         else fst (search_best_move self b legal_moves))"

subsection \<open>Exhaustive minimax, as the specification words it\<close>

text \<open>
  The reference search of the specification: the same terminal scores and the same leaf
  evaluation, every legal move of the side to move tried in the order the generator
  gives, no window, no ordering and no cut-off.
\<close>

definition maximum :: "score list \<Rightarrow> score" where
  "maximum xs = foldr max xs NegInf"

definition minimum :: "score list \<Rightarrow> score" where
  "minimum xs = foldr min xs PosInf"

fun minimax_exhaustive :: "ChessBot \<Rightarrow> ChessBoard \<Rightarrow> nat \<Rightarrow> bool \<Rightarrow> score" where
  "minimax_exhaustive self b 0 maximizing =
     (case is_game_over b of
        (True, result) \<Rightarrow> terminal_score self (the result) 0
      | (False, result) \<Rightarrow> Fin (fst (evaluate_position self b)))"
| "minimax_exhaustive self b (Suc d) maximizing =
     (case is_game_over b of
        (True, result) \<Rightarrow> terminal_score self (the result) (Suc d)
      | (False, result) \<Rightarrow>
          (let legal_moves = generate_legal_moves b (current_player b)
           in if legal_moves = [] then Fin 0
              else if maximizing
              then maximum (map (\<lambda>move. minimax_exhaustive self
                                   (snd (make_move (copy_board b) move False)) d False) legal_moves)
              else minimum (map (\<lambda>move. minimax_exhaustive self
                                   (snd (make_move (copy_board b) move False)) d True) legal_moves)))"

text \<open>
  The exhaustive score of one move of the bot at the bot's depth, and the exhaustive
  value of the position: the best such score over the bot's legal moves.
\<close>

definition exhaustive_move_score :: "ChessBot \<Rightarrow> ChessBoard \<Rightarrow> Move \<Rightarrow> score" where
  "exhaustive_move_score self b move =
     minimax_exhaustive self (snd (make_move (copy_board b) move False))
       (nat (difficulty self - 1)) False"

definition exhaustive_best_score :: "ChessBot \<Rightarrow> ChessBoard \<Rightarrow> score" where
  "exhaustive_best_score self b =
     maximum (map (exhaustive_move_score self b) (generate_legal_moves b (color self)))"

text \<open>
  What a returned value tells about the exhaustive one, for a window \<open>alpha < beta\<close>: at or
  below \<open>alpha\<close> it is an upper bound, at or above \<open>beta\<close> a lower bound, in between exact.
\<close>

definition window_agrees :: "score \<Rightarrow> score \<Rightarrow> score \<Rightarrow> score \<Rightarrow> bool" where
  "window_agrees alpha beta v exact \<longleftrightarrow>
     (v \<le> alpha \<longrightarrow> exact \<le> v) \<and> (alpha < v \<and> v < beta \<longrightarrow> v = exact) \<and> (beta \<le> v \<longrightarrow> v \<le> exact)"

section \<open>The simulation operations on an object store\<close>

text \<open>
  Boards are objects: \<open>copy.deepcopy\<close> makes a new one, \<open>make_move\<close> and the assignment
  to \<open>current_player\<close> write into the one they are given. Here the store is the list of
  the boards that exist, an address is an index into it, \<open>deepcopy\<close> appends the copy and
  returns its address, and a write replaces the entry at the address. Each operation
  below is the source function once more, with the store threaded through it; it
  returns its result and the store as the call leaves it.
\<close>

type_synonym store = "ChessBoard list"

definition deepcopy :: "store \<Rightarrow> nat \<Rightarrow> nat \<times> store" where
  "deepcopy s a = (length s, s @ [s ! a])"

definition make_move_at :: "store \<Rightarrow> nat \<Rightarrow> Move \<Rightarrow> bool \<Rightarrow> bool \<times> store" where
  "make_move_at s a move check_legality =
     (let (ok, b') = make_move (s ! a) move check_legality in (ok, s[a := b']))"

definition is_legal_move_at :: "store \<Rightarrow> nat \<Rightarrow> Move \<Rightarrow> bool \<times> store" where
  "is_legal_move_at s a move =
     (let (temp_board, s1) = deepcopy s a;
          (ok, s2) = make_move_at s1 temp_board move False
      in (\<not> is_in_check (s2 ! temp_board) (current_player (s2 ! a)), s2))"

text \<open>The inner loop of \<open>generate_legal_moves\<close>, over the moves of one piece.\<close>

fun legal_filter_at :: "store \<Rightarrow> nat \<Rightarrow> Move list \<Rightarrow> Move list \<times> store" where
  "legal_filter_at s a [] = ([], s)"
| "legal_filter_at s a (move # rest) =
     (let (ok, s1) = is_legal_move_at s a move;
          (moves, s2) = legal_filter_at s1 a rest
      in (if ok then move # moves else moves, s2))"

text \<open>The outer loop, over the pieces that \<open>get_all_pieces\<close> listed before the loop.\<close>

fun legal_pieces_at :: "store \<Rightarrow> nat \<Rightarrow> (int \<times> int \<times> Piece) list \<Rightarrow> Move list \<times> store" where
  "legal_pieces_at s a [] = ([], s)"
| "legal_pieces_at s a ((row, col, piece) # rest) =
     (let piece_moves = generate_piece_moves (s ! a) row col piece;
          (moves, s1) = legal_filter_at s a piece_moves;
          (more, s2) = legal_pieces_at s1 a rest
      in (moves @ more, s2))"

definition generate_legal_moves_at :: "store \<Rightarrow> nat \<Rightarrow> Color \<Rightarrow> Move list \<times> store" where
  "generate_legal_moves_at s a side = legal_pieces_at s a (get_all_pieces (s ! a) side)"

definition move_priority_at :: "ChessBot \<Rightarrow> store \<Rightarrow> nat \<Rightarrow> Move \<Rightarrow> int \<times> store" where
  "move_priority_at self s a move =
     (let score0 =
            (case get_piece (s ! a) (fst (to_pos move)) (snd (to_pos move)) of
               Some target_piece \<Rightarrow>
                 (case get_piece (s ! a) (fst (from_pos move)) (snd (from_pos move)) of
                    Some attacker \<Rightarrow>
                      piece_values (ptype target_piece)
                        + (piece_values (ptype target_piece) - piece_values (ptype attacker))
                  | None \<Rightarrow> piece_values (ptype target_piece))
             | None \<Rightarrow> 0);
          score1 = (case promotion move of
                      Some promoted \<Rightarrow> score0 + piece_values promoted
                    | None \<Rightarrow> score0);
          (temp_board, s1) = deepcopy s a;
          (ok, s2) = make_move_at s1 temp_board move False;
          opponent_color = (if color self = WHITE then BLACK else WHITE)
      in (if is_in_check (s2 ! temp_board) opponent_color then score1 + 100 else score1, s2))"

text \<open>\<open>sorted\<close> computes the key of every move once, in list order, then sorts.\<close>

fun priorities_at :: "ChessBot \<Rightarrow> store \<Rightarrow> nat \<Rightarrow> Move list \<Rightarrow> int list \<times> store" where
  "priorities_at self s a [] = ([], s)"
| "priorities_at self s a (move # rest) =
     (let (k, s1) = move_priority_at self s a move;
          (ks, s2) = priorities_at self s1 a rest
      in (k # ks, s2))"

definition order_moves_at :: "ChessBot \<Rightarrow> store \<Rightarrow> nat \<Rightarrow> Move list \<Rightarrow> Move list \<times> store" where
  "order_moves_at self s a moves =
     (let (keys, s1) = priorities_at self s a moves
      in (map snd (sort_key (\<lambda>(k, move). - k) (zip keys moves)), s1))"

definition evaluate_position_at :: "ChessBot \<Rightarrow> store \<Rightarrow> nat \<Rightarrow> int \<times> store" where
  "evaluate_position_at self s a =
     (let score0 = material_score self (s ! a);
          (our, s1) = generate_legal_moves_at s a (color self);
          our_moves = int (length our);
          opponent_color = (if color self = WHITE then BLACK else WHITE);
          original_player = current_player (s1 ! a);
          s2 = s1[a := (s1 ! a)\<lparr>current_player := opponent_color\<rparr>];
          (theirs, s3) = generate_legal_moves_at s2 a opponent_color;
          opponent_moves = int (length theirs);
          s4 = s3[a := (s3 ! a)\<lparr>current_player := original_player\<rparr>];
          score1 = score0 + (our_moves - opponent_moves) * 10;
          score2 = (if is_in_check (s4 ! a) (color self) then score1 - 50 else score1);
          score3 = (if is_in_check (s4 ! a) opponent_color then score2 + 50 else score2)
      in (score3, s4))"

section \<open>Positions used as examples\<close>

definition empty_board :: ChessBoard where
  "empty_board =
     \<lparr>board = replicate 8 (replicate 8 None), current_player = WHITE, move_history = [],
      en_passant_target = None, halfmove_clock = 0, fullmove_number = 1\<rparr>"

fun place :: "ChessBoard \<Rightarrow> (int \<times> int \<times> PieceType \<times> Color) list \<Rightarrow> ChessBoard" where
  "place b [] = b"
| "place b ((row, col, t, side) # rest) =
     place (set_piece b row col (Some ((new_Piece t side)\<lparr>has_moved := True\<rparr>))) rest"

text \<open>
  Black king a8, white queen b7, white king c6, Black to move and mated, with the
  no-progress counter at 100.
\<close>

definition mate_position :: ChessBoard where
  "mate_position =
     (place empty_board [(0, 0, KING, BLACK), (1, 1, QUEEN, WHITE), (2, 2, KING, WHITE)])
       \<lparr>current_player := BLACK, halfmove_clock := 100\<rparr>"

text \<open>
  Black king e8 behind its rook on e7, white rook e1, white king a1, White to move: the
  black rook is pinned on the e-file.
\<close>

definition pin_position :: ChessBoard where
  "pin_position =
     place empty_board
       [(0, 4, KING, BLACK), (1, 4, ROOK, BLACK), (7, 4, ROOK, WHITE), (7, 0, KING, WHITE)]"

text \<open>White king a1, black queen b3, black king h8, White to move and stalemated.\<close>

definition stalemate_position :: ChessBoard where
  "stalemate_position =
     place empty_board [(7, 0, KING, WHITE), (5, 1, QUEEN, BLACK), (0, 7, KING, BLACK)]"

text \<open>White king a1, black king c3, White to move: the king has two squares, a2 and b1.\<close>

definition two_kings_position :: ChessBoard where
  "two_kings_position = place empty_board [(7, 0, KING, WHITE), (5, 2, KING, BLACK)]"

section \<open>Properties\<close>

subsection \<open>The path walk returns on lines and diagonals\<close>

lemma path_loop_terminates:
  "\<exists>r. path_loop b row_step col_step to_row to_col
          (to_row - int k * row_step) (to_col - int k * col_step) = Some r"
proof (induction k)
  case 0
  have "path_loop b row_step col_step to_row to_col to_row to_col = Some True"
    by (subst path_loop.simps) simp
  then show ?case by (intro exI[of _ True]) simp
next
  case (Suc k)
  define cr where "cr = to_row - int (Suc k) * row_step"
  define cc where "cc = to_col - int (Suc k) * col_step"
  obtain r where r: "path_loop b row_step col_step to_row to_col
                       (to_row - int k * row_step) (to_col - int k * col_step) = Some r"
    using Suc by blast
  have nxt: "cr + row_step = to_row - int k * row_step" "cc + col_step = to_col - int k * col_step"
    by (simp_all add: cr_def cc_def algebra_simps)
  have "path_loop b row_step col_step to_row to_col cr cc
          = (if (cr, cc) \<noteq> (to_row, to_col)
             then (if get_piece b cr cc \<noteq> None then Some False else Some r)
             else Some True)"
    by (subst path_loop.simps) (simp only: nxt r)
  then have "\<exists>r'. path_loop b row_step col_step to_row to_col cr cc = Some r'"
    by metis
  then show ?case unfolding cr_def cc_def .
qed

lemma is_path_clear_returns:
  assumes "from_row = to_row \<or> from_col = to_col \<or> \<bar>to_row - from_row\<bar> = \<bar>to_col - from_col\<bar>"
  shows "\<exists>r. is_path_clear b from_row from_col to_row to_col = Some r"
proof -
  define row_step :: int where
    "row_step = (if from_row = to_row then 0 else if to_row > from_row then 1 else -1)"
  define col_step :: int where
    "col_step = (if from_col = to_col then 0 else if to_col > from_col then 1 else -1)"
  define k where "k = nat (max \<bar>to_row - from_row\<bar> \<bar>to_col - from_col\<bar> - 1)"
  have pos: "from_row + row_step = to_row - int k * row_step"
            "from_col + col_step = to_col - int k * col_step"
    using assms unfolding row_step_def col_step_def k_def
    by (auto simp: algebra_simps max_def)
  have "is_path_clear b from_row from_col to_row to_col
          = path_loop b row_step col_step to_row to_col (from_row + row_step) (from_col + col_step)"
    unfolding is_path_clear_def row_step_def col_step_def Let_def by (rule refl)
  also have "\<dots> = path_loop b row_step col_step to_row to_col
                       (to_row - int k * row_step) (to_col - int k * col_step)"
    by (simp only: pos)
  finally show ?thesis
    using path_loop_terminates[of b row_step col_step to_row to_col k] by simp
qed

lemma is_path_clear_straight:
  "from_row = to_row \<or> from_col = to_col \<Longrightarrow>
   \<exists>r. is_path_clear b from_row from_col to_row to_col = Some r"
  by (rule is_path_clear_returns) blast

lemma is_path_clear_diagonal:
  "\<bar>to_row - from_row\<bar> = \<bar>to_col - from_col\<bar> \<Longrightarrow>
   \<exists>r. is_path_clear b from_row from_col to_row to_col = Some r"
  by (rule is_path_clear_returns) blast

subsection \<open>Applying a move\<close>

lemma en_passant_target_set_piece [simp]:
  "en_passant_target (set_piece b row col piece) = en_passant_target b"
  by (simp add: set_piece_def)

lemma current_player_set_piece [simp]:
  "current_player (set_piece b row col piece) = current_player b"
  by (simp add: set_piece_def)

lemma apply_move_fails: "\<not> fst (apply_move b move) \<Longrightarrow> snd (apply_move b move) = b"
  by (cases "get_piece b (fst (from_pos move)) (snd (from_pos move))")
     (simp_all add: apply_move_def case_prod_beta Let_def)

lemma apply_move_succeeds_iff:
  "fst (apply_move b move) \<longleftrightarrow> get_piece b (fst (from_pos move)) (snd (from_pos move)) \<noteq> None"
  by (cases "get_piece b (fst (from_pos move)) (snd (from_pos move))")
     (simp_all add: apply_move_def case_prod_beta Let_def)

lemma apply_move_en_passant_target:
  "get_piece b (fst (from_pos move)) (snd (from_pos move)) = Some piece \<Longrightarrow>
   en_passant_target (snd (apply_move b move))
     = (if ptype piece = PAWN \<and> \<bar>fst (to_pos move) - fst (from_pos move)\<bar> = 2
        then Some ((fst (from_pos move) + fst (to_pos move)) div 2, snd (to_pos move))
        else None)"
  by (simp add: apply_move_def update_en_passant_target_def case_prod_beta Let_def)

lemma current_player_handle_castling [simp]:
  "current_player (handle_castling b move) = current_player b"
  by (simp add: handle_castling_def case_prod_beta Let_def)

lemma current_player_handle_en_passant [simp]:
  "current_player (handle_en_passant b move) = current_player b"
  by (simp add: handle_en_passant_def case_prod_beta Let_def)

lemma current_player_update_en_passant_target [simp]:
  "current_player (update_en_passant_target b move piece) = current_player b"
  by (simp add: update_en_passant_target_def Let_def)

lemma current_player_mark_moved [simp]:
  "current_player (case x of None \<Rightarrow> b1 | Some moved_piece \<Rightarrow> set_piece b1 row col (f moved_piece))
     = current_player b1"
  by (cases x) simp_all

lemma apply_move_current_player:
  "fst (apply_move b move) \<Longrightarrow>
   current_player (snd (apply_move b move)) = (if current_player b = WHITE then BLACK else WHITE)"
  by (cases "get_piece b (fst (from_pos move)) (snd (from_pos move))")
     (simp_all add: apply_move_def case_prod_beta Let_def)

text \<open>
  C9. After every successful \<open>make_move\<close>, with or without the legality check, the
  en-passant target is the square in the middle, (from\_row + to\_row) // 2 on the
  destination file, if the piece that moved is a pawn and the move spans two ranks, and
  is absent otherwise. The value does not depend on the target before the move, so a
  target set by one move is gone after the next.
\<close>

theorem en_passant_target_after_move:
  assumes "fst (make_move b move check_legality)"
  shows "\<exists>piece. get_piece b (fst (from_pos move)) (snd (from_pos move)) = Some piece
           \<and> en_passant_target (snd (make_move b move check_legality))
               = (if ptype piece = PAWN \<and> \<bar>fst (to_pos move) - fst (from_pos move)\<bar> = 2
                  then Some ((fst (from_pos move) + fst (to_pos move)) div 2, snd (to_pos move))
                  else None)"
proof -
  have ap: "make_move b move check_legality = apply_move b move"
    using assms by (auto simp: make_move_def split: if_splits)
  then have "fst (apply_move b move)" using assms by simp
  then obtain piece where p: "get_piece b (fst (from_pos move)) (snd (from_pos move)) = Some piece"
    by (auto simp: apply_move_succeeds_iff)
  show ?thesis using p apply_move_en_passant_target[OF p] ap by simp
qed

theorem en_passant_target_after_move_witness:
  "fst (make_move new_ChessBoard (new_Move (6, 4) (4, 4)) True)
   \<and> en_passant_target (snd (make_move new_ChessBoard (new_Move (6, 4) (4, 4)) True)) = Some (5, 4)"
proof -
  have h: "fst (make_move new_ChessBoard (new_Move (6, 4) (4, 4)) True)" by code_simp
  have p: "map_option ptype (get_piece new_ChessBoard 6 4) = Some PAWN" by code_simp
  show ?thesis
    using h p en_passant_target_after_move[OF h] by (auto simp: new_Move_def)
qed

subsection \<open>Generated moves start on occupied squares\<close>

lemma list_all_concat_map:
  "(\<And>x. list_all P (f x)) \<Longrightarrow> list_all P (concat (map f xs))"
  by (induction xs) simp_all

lemma list_all_map_const: "(\<And>x. P (f x)) \<Longrightarrow> list_all P (map f xs)"
  by (induction xs) simp_all

lemma ray_moves_from:
  "list_all (\<lambda>m. from_pos m = (row, col)) (ray_moves b row col row_dir col_dir steps)"
  by (induction steps) (simp_all add: Let_def new_Move_def split: option.split)

lemma generate_rook_moves_from:
  "list_all (\<lambda>m. from_pos m = (row, col)) (generate_rook_moves b row col)"
  unfolding generate_rook_moves_def
  by (rule list_all_concat_map) (simp add: ray_moves_from split: prod.split)

lemma generate_bishop_moves_from:
  "list_all (\<lambda>m. from_pos m = (row, col)) (generate_bishop_moves b row col)"
  unfolding generate_bishop_moves_def
  by (rule list_all_concat_map) (simp add: ray_moves_from split: prod.split)

lemma generate_knight_moves_from:
  "list_all (\<lambda>m. from_pos m = (row, col)) (generate_knight_moves b row col)"
  unfolding generate_knight_moves_def
  by (rule list_all_concat_map) (simp add: Let_def new_Move_def split: prod.split option.split)

lemma from_pos_new_Move [simp]: "from_pos (new_Move f t) = f"
  by (simp add: new_Move_def)

lemma list_all_promotions:
  "list_all (\<lambda>m. from_pos m = f)
     (map (\<lambda>promotion_piece. (new_Move f t)\<lparr>promotion := Some promotion_piece\<rparr>) promotion_pieces)"
  by (rule list_all_map_const) simp

lemma generate_pawn_moves_from:
  "list_all (\<lambda>m. from_pos m = (row, col)) (generate_pawn_moves b row col side)"
  unfolding generate_pawn_moves_def Let_def list_all_append
  by (intro conjI list_all_concat_map) (simp_all add: list_all_promotions split: option.split)

lemma generate_king_moves_from:
  "list_all (\<lambda>m. from_pos m = (row, col)) (generate_king_moves b row col side)"
  unfolding generate_king_moves_def Let_def list_all_append
  by (intro conjI list_all_concat_map) (simp_all split: option.split)

lemma generate_piece_moves_from:
  "list_all (\<lambda>m. from_pos m = (row, col)) (generate_piece_moves b row col piece)"
  by (cases "ptype piece")
     (simp_all add: generate_piece_moves_def generate_queen_moves_def generate_pawn_moves_from
        generate_rook_moves_from generate_knight_moves_from generate_bishop_moves_from
        generate_king_moves_from)

lemma all_squares_range:
  "(row, col) \<in> set all_squares \<Longrightarrow> 0 \<le> row \<and> row < 8 \<and> 0 \<le> col \<and> col < 8"
  by (auto simp: all_squares_def)

lemma get_all_pieces_occupied:
  assumes "(row, col, piece) \<in> set (get_all_pieces b side)"
  shows "get_piece b row col = Some piece \<and> pcolor piece = side"
proof -
  from assms obtain sq where sq: "sq \<in> set all_squares"
    and m: "(row, col, piece) \<in> set (case sq of (r, c) \<Rightarrow>
              (case board b ! nat r ! nat c of
                 Some p \<Rightarrow> if pcolor p = side then [(r, c, p)] else []
               | None \<Rightarrow> []))"
    by (auto simp: get_all_pieces_def)
  obtain r c where rc: "sq = (r, c)" by (cases sq)
  from m rc have e: "r = row" "c = col" "board b ! nat row ! nat col = Some piece" "pcolor piece = side"
    by (auto split: option.splits if_splits)
  from sq rc e have "0 \<le> row \<and> row < 8 \<and> 0 \<le> col \<and> col < 8"
    using all_squares_range by blast
  then show ?thesis using e by (simp add: get_piece_def)
qed

lemma generate_legal_moves_from:
  assumes "m \<in> set (generate_legal_moves b side)"
  shows "get_piece b (fst (from_pos m)) (snd (from_pos m)) \<noteq> None"
proof -
  from assms obtain row col piece where p: "(row, col, piece) \<in> set (get_all_pieces b side)"
    and m: "m \<in> set (generate_piece_moves b row col piece)"
    by (auto simp: generate_legal_moves_def)
  have "from_pos m = (row, col)"
    using m generate_piece_moves_from[of row col b piece] by (simp add: list_all_iff)
  then show ?thesis using get_all_pieces_occupied[OF p] by simp
qed

text \<open>
  C4. With the legality check on, \<open>make_move\<close> on a move that is not in the legal moves of
  the side to move (membership by \<open>Move.__eq__\<close>) returns False and the position it was
  given, unchanged in every field; on a move that is in the list it returns True and the
  position changed by the move body, with the other side to move. With or without the
  check, a call that returns False leaves the position unchanged.
\<close>

theorem make_move_illegal_unchanged:
  "(\<not> move_in move (generate_legal_moves b (current_player b))
      \<longrightarrow> make_move b move True = (False, b))
   \<and> (move_in move (generate_legal_moves b (current_player b))
      \<longrightarrow> fst (make_move b move True)
          \<and> snd (make_move b move True) = snd (apply_move b move)
          \<and> current_player (snd (make_move b move True)) \<noteq> current_player b)
   \<and> (\<not> fst (make_move b move check_legality) \<longrightarrow> snd (make_move b move check_legality) = b)"
proof (intro conjI impI)
  assume "\<not> move_in move (generate_legal_moves b (current_player b))"
  then show "make_move b move True = (False, b)" by (simp add: make_move_def)
next
  assume a: "move_in move (generate_legal_moves b (current_player b))"
  then obtain l where l: "l \<in> set (generate_legal_moves b (current_player b))" "move_eq move l"
    by (auto simp: move_in_def list_ex_iff)
  have "get_piece b (fst (from_pos move)) (snd (from_pos move)) \<noteq> None"
    using generate_legal_moves_from[OF l(1)] l(2) by (simp add: move_eq_def)
  then have ok: "fst (apply_move b move)" by (simp add: apply_move_succeeds_iff)
  have mm: "make_move b move True = apply_move b move" using a by (simp add: make_move_def)
  show "fst (make_move b move True)" using ok mm by simp
  show "snd (make_move b move True) = snd (apply_move b move)" using mm by simp
  show "current_player (snd (make_move b move True)) \<noteq> current_player b"
    using apply_move_current_player[OF ok] mm by (cases "current_player b") auto
next
  assume "\<not> fst (make_move b move check_legality)"
  then show "snd (make_move b move check_legality) = b"
    by (auto simp: make_move_def apply_move_fails split: if_splits)
qed

theorem make_move_illegal_unchanged_witness:
  "\<not> move_in (new_Move (6, 4) (3, 4)) (generate_legal_moves new_ChessBoard (current_player new_ChessBoard))
   \<and> make_move new_ChessBoard (new_Move (6, 4) (3, 4)) True = (False, new_ChessBoard)
   \<and> move_in (new_Move (6, 4) (4, 4)) (generate_legal_moves new_ChessBoard (current_player new_ChessBoard))
   \<and> fst (make_move new_ChessBoard (new_Move (6, 4) (4, 4)) True)
   \<and> current_player (snd (make_move new_ChessBoard (new_Move (6, 4) (4, 4)) True))
        \<noteq> current_player new_ChessBoard"
proof -
  have h1: "\<not> move_in (new_Move (6, 4) (3, 4))
              (generate_legal_moves new_ChessBoard (current_player new_ChessBoard))"
    by code_simp
  have h2: "move_in (new_Move (6, 4) (4, 4))
              (generate_legal_moves new_ChessBoard (current_player new_ChessBoard))"
    by code_simp
  show ?thesis
    using h1 h2 make_move_illegal_unchanged[of "new_Move (6, 4) (3, 4)" new_ChessBoard True]
      make_move_illegal_unchanged[of "new_Move (6, 4) (4, 4)" new_ChessBoard True]
    by blast
qed

subsection \<open>The order on scores\<close>

lemma less_score_simps [simp]:
  "NegInf < Fin x" "Fin x < PosInf" "NegInf < PosInf" "\<not> Fin x < NegInf" "\<not> PosInf < s"
  "\<not> s < NegInf" "(Fin x < Fin y) = (x < y)"
  by (cases s; auto simp: less_score_def)+

lemma score_bounds [simp]: "s \<le> PosInf" "NegInf \<le> s" "(PosInf \<le> s) = (s = PosInf)"
  "(s \<le> NegInf) = (s = NegInf)"
  by (cases s; simp)+

lemma max_NegInf [simp]: "max NegInf x = x" "max x NegInf = x"
  by (cases x; simp add: max_def)+

lemma min_PosInf [simp]: "min PosInf x = x" "min x PosInf = x"
  by (cases x; simp add: min_def)+

lemma max_Fin [simp]: "max (Fin x) (Fin y) = Fin (max x y)"
  by (simp add: max_def)

lemma min_Fin [simp]: "min (Fin x) (Fin y) = Fin (min x y)"
  by (simp add: min_def)

lemma maximum_Nil [simp]: "maximum [] = NegInf"
  by (simp add: maximum_def)

lemma maximum_Cons [simp]: "maximum (x # xs) = max x (maximum xs)"
  by (simp add: maximum_def)

lemma minimum_Nil [simp]: "minimum [] = PosInf"
  by (simp add: minimum_def)

lemma minimum_Cons [simp]: "minimum (x # xs) = min x (minimum xs)"
  by (simp add: minimum_def)

lemma maximum_set: "maximum xs = Max (insert NegInf (set xs))"
proof (induction xs)
  case Nil
  show ?case by simp
next
  case (Cons x xs)
  have "Max (insert NegInf (set (x # xs))) = Max (insert x (insert NegInf (set xs)))"
    by (simp add: insert_commute)
  also have "\<dots> = max x (Max (insert NegInf (set xs)))"
    by (rule Max_insert) auto
  finally show ?case using Cons by simp
qed

lemma minimum_set: "minimum xs = Min (insert PosInf (set xs))"
proof (induction xs)
  case Nil
  show ?case by simp
next
  case (Cons x xs)
  have "Min (insert PosInf (set (x # xs))) = Min (insert x (insert PosInf (set xs)))"
    by (simp add: insert_commute)
  also have "\<dots> = min x (Min (insert PosInf (set xs)))"
    by (rule Min_insert) auto
  finally show ?case using Cons by simp
qed

subsection \<open>Alpha-beta pruning against exhaustive minimax\<close>

lemma set_order_moves [simp]: "set (order_moves self b moves) = set moves"
  by (simp add: order_moves_def)

lemma order_moves_Nil_iff [simp]: "order_moves self b moves = [] \<longleftrightarrow> moves = []"
  by (metis set_order_moves set_empty)

lemma max_loop_ge: "max_eval \<le> max_loop rec b moves alpha beta max_eval"
proof (induction moves arbitrary: alpha max_eval)
  case Nil
  show ?case by simp
next
  case (Cons move rest)
  show ?case
    using Cons.IH[of "max max_eval (rec (snd (make_move (copy_board b) move False)) alpha beta)"]
    by (auto simp: Let_def intro: order_trans[OF max.cobounded1])
qed

lemma min_loop_le: "min_loop rec b moves alpha beta min_eval \<le> min_eval"
proof (induction moves arbitrary: beta min_eval)
  case Nil
  show ?case by simp
next
  case (Cons move rest)
  show ?case
    using Cons.IH[of _ "min min_eval (rec (snd (make_move (copy_board b) move False)) alpha beta)"]
    by (auto simp: Let_def intro: order_trans[OF _ min.cobounded1])
qed

lemma max_loop_agrees:
  assumes "\<And>move a be. move \<in> set moves \<Longrightarrow> a < be \<Longrightarrow>
             window_agrees a be (rec (snd (make_move (copy_board b) move False)) a be)
               (ex (snd (make_move (copy_board b) move False)))"
    and "max_eval \<le> alpha" and "alpha < beta"
  shows "window_agrees alpha beta (max_loop rec b moves alpha beta max_eval)
           (maximum (map (\<lambda>move. ex (snd (make_move (copy_board b) move False))) moves))"
  using assms
proof (induction moves arbitrary: alpha max_eval)
  case Nil
  then show ?case by (auto simp: window_agrees_def)
next
  case (Cons move rest)
  define child where "child = snd (make_move (copy_board b) move False)"
  define v where "v = rec child alpha beta"
  define e where "e = ex child"
  define M where "M = maximum (map (\<lambda>move. ex (snd (make_move (copy_board b) move False))) rest)"
  have hv: "window_agrees alpha beta v e"
    using Cons.prems(1)[of move alpha beta] Cons.prems(3) by (simp add: v_def e_def child_def)
  show ?case
  proof (cases "beta \<le> max alpha v")
    case True
    then have bv: "beta \<le> v" using Cons.prems(3) by (auto simp: max_def split: if_splits)
    have "max max_eval v = v" using Cons.prems(2,3) bv by (auto simp: max_def)
    moreover have "v \<le> e" using hv bv by (simp add: window_agrees_def)
    ultimately show ?thesis using True bv Cons.prems(3)
      by (auto simp: Let_def window_agrees_def v_def[symmetric] child_def[symmetric]
                     e_def[symmetric] M_def[symmetric] max.coboundedI1)
  next
    case False
    define V where "V = max_loop rec b rest (max alpha v) beta (max max_eval v)"
    have lt: "max alpha v < beta" using False by (simp only: not_le)
    have le: "max max_eval v \<le> max alpha v"
      using Cons.prems(2) by (rule max.mono) simp
    have IH: "window_agrees (max alpha v) beta V M"
      unfolding V_def M_def
      by (rule Cons.IH[OF _ le lt]) (simp add: Cons.prems(1))
    have ge: "max max_eval v \<le> V" unfolding V_def by (rule max_loop_ge)
    have res: "max_loop rec b (move # rest) alpha beta max_eval = V"
      using False by (simp add: Let_def V_def v_def child_def)
    have "window_agrees alpha beta V (max e M)"
      using IH hv ge False Cons.prems(2,3)
      unfolding window_agrees_def
      by (auto simp: max_def split: if_splits)
    then show ?thesis
      unfolding res e_def child_def M_def by simp
  qed
qed

lemma min_loop_agrees:
  assumes "\<And>move a be. move \<in> set moves \<Longrightarrow> a < be \<Longrightarrow>
             window_agrees a be (rec (snd (make_move (copy_board b) move False)) a be)
               (ex (snd (make_move (copy_board b) move False)))"
    and "beta \<le> min_eval" and "alpha < beta"
  shows "window_agrees alpha beta (min_loop rec b moves alpha beta min_eval)
           (minimum (map (\<lambda>move. ex (snd (make_move (copy_board b) move False))) moves))"
  using assms
proof (induction moves arbitrary: beta min_eval)
  case Nil
  then show ?case by (auto simp: window_agrees_def)
next
  case (Cons move rest)
  define child where "child = snd (make_move (copy_board b) move False)"
  define v where "v = rec child alpha beta"
  define e where "e = ex child"
  define M where "M = minimum (map (\<lambda>move. ex (snd (make_move (copy_board b) move False))) rest)"
  have hv: "window_agrees alpha beta v e"
    using Cons.prems(1)[of move alpha beta] Cons.prems(3) by (simp add: v_def e_def child_def)
  show ?case
  proof (cases "min beta v \<le> alpha")
    case True
    then have bv: "v \<le> alpha" using Cons.prems(3) by (auto simp: min_def split: if_splits)
    have "min min_eval v = v" using Cons.prems(2,3) bv by (auto simp: min_def)
    moreover have "e \<le> v" using hv bv by (simp add: window_agrees_def)
    ultimately show ?thesis using True bv Cons.prems(3)
      by (auto simp: Let_def window_agrees_def v_def[symmetric] child_def[symmetric]
                     e_def[symmetric] M_def[symmetric] min.coboundedI1)
  next
    case False
    define V where "V = min_loop rec b rest alpha (min beta v) (min min_eval v)"
    have lt: "alpha < min beta v" using False by (simp only: not_le)
    have le: "min beta v \<le> min min_eval v"
      using Cons.prems(2) by (rule min.mono) simp
    have IH: "window_agrees alpha (min beta v) V M"
      unfolding V_def M_def
      by (rule Cons.IH[OF _ le lt]) (simp add: Cons.prems(1))
    have ge: "V \<le> min min_eval v" unfolding V_def by (rule min_loop_le)
    have res: "min_loop rec b (move # rest) alpha beta min_eval = V"
      using False by (simp add: Let_def V_def v_def child_def)
    have "window_agrees alpha beta V (min e M)"
      using IH hv ge False Cons.prems(2,3)
      unfolding window_agrees_def
      by (auto simp: min_def split: if_splits)
    then show ?thesis
      unfolding res e_def child_def M_def by simp
  qed
qed

lemma terminal_score_Fin: "\<exists>x. terminal_score self result depth = Fin x"
  by (simp add: terminal_score_def)

lemma max_loop_Fin:
  assumes "\<And>tb a be. \<exists>x. rec tb a be = Fin x"
    and "max_eval \<noteq> PosInf" and "moves \<noteq> [] \<or> max_eval \<noteq> NegInf"
  shows "\<exists>x. max_loop rec b moves alpha beta max_eval = Fin x"
  using assms(2,3)
proof (induction moves arbitrary: alpha max_eval)
  case Nil
  then show ?case by (cases max_eval) auto
next
  case (Cons move rest)
  obtain x where x: "rec (snd (make_move (copy_board b) move False)) alpha beta = Fin x"
    using assms(1) by blast
  obtain y where y: "max max_eval (Fin x) = Fin y"
    using Cons.prems(1) by (cases max_eval) auto
  show ?case using Cons.IH[of "Fin y"] x y by (auto simp: Let_def)
qed

lemma min_loop_Fin:
  assumes "\<And>tb a be. \<exists>x. rec tb a be = Fin x"
    and "min_eval \<noteq> NegInf" and "moves \<noteq> [] \<or> min_eval \<noteq> PosInf"
  shows "\<exists>x. min_loop rec b moves alpha beta min_eval = Fin x"
  using assms(2,3)
proof (induction moves arbitrary: beta min_eval)
  case Nil
  then show ?case by (cases min_eval) auto
next
  case (Cons move rest)
  obtain x where x: "rec (snd (make_move (copy_board b) move False)) alpha beta = Fin x"
    using assms(1) by blast
  obtain y where y: "min min_eval (Fin x) = Fin y"
    using Cons.prems(1) by (cases min_eval) auto
  show ?case using Cons.IH[of "Fin y"] x y by (auto simp: Let_def)
qed

lemma minimax_Fin: "\<exists>x. minimax self b depth alpha beta maximizing = Fin x"
proof (induction depth arbitrary: b alpha beta maximizing)
  case 0
  show ?case by (auto simp: terminal_score_Fin split: prod.splits bool.splits)
next
  case (Suc d)
  show ?case
    by (auto simp: terminal_score_Fin Let_def Suc split: prod.splits bool.splits
             intro!: max_loop_Fin min_loop_Fin)
qed

lemma maximum_order_moves:
  "maximum (map f (order_moves self b moves)) = maximum (map f moves)"
  by (simp add: maximum_set)

lemma minimum_order_moves:
  "minimum (map f (order_moves self b moves)) = minimum (map f moves)"
  by (simp add: minimum_set)

lemma window_agrees_refl: "window_agrees alpha beta v v"
  by (simp add: window_agrees_def)

lemma minimax_agrees:
  "alpha < beta \<Longrightarrow>
   window_agrees alpha beta (minimax self b depth alpha beta maximizing)
     (minimax_exhaustive self b depth maximizing)"
proof (induction depth arbitrary: b alpha beta maximizing)
  case 0
  show ?case by (simp add: window_agrees_refl split: prod.splits bool.splits)
next
  case (Suc d)
  show ?case
  proof (cases "is_game_over b")
    case (Pair over result)
    show ?thesis
    proof (cases "over \<or> generate_legal_moves b (current_player b) = []")
      case True
      then show ?thesis using Pair by (cases over) (auto simp: window_agrees_refl Let_def)
    next
      case False
      let ?moves = "generate_legal_moves b (current_player b)"
      show ?thesis
      proof (cases maximizing)
        case True
        have "window_agrees alpha beta
                (max_loop (\<lambda>tb a be. minimax self tb d a be False) b
                   (order_moves self b ?moves) alpha beta NegInf)
                (maximum (map (\<lambda>move. minimax_exhaustive self
                            (snd (make_move (copy_board b) move False)) d False)
                          (order_moves self b ?moves)))"
          by (rule max_loop_agrees[where ex = "\<lambda>tb. minimax_exhaustive self tb d False"])
             (use Suc in auto)
        then show ?thesis using Pair False True
          by (simp add: Let_def maximum_order_moves)
      next
        case mf: False
        have "window_agrees alpha beta
                (min_loop (\<lambda>tb a be. minimax self tb d a be True) b
                   (order_moves self b ?moves) alpha beta PosInf)
                (minimum (map (\<lambda>move. minimax_exhaustive self
                            (snd (make_move (copy_board b) move False)) d True)
                          (order_moves self b ?moves)))"
          by (rule min_loop_agrees[where ex = "\<lambda>tb. minimax_exhaustive self tb d True"])
             (use Suc in auto)
        then show ?thesis using Pair False mf
          by (simp add: Let_def minimum_order_moves)
      qed
    qed
  qed
qed


lemma minimax_exhaustive_Fin: "\<exists>x. minimax_exhaustive self b depth maximizing = Fin x"
proof -
  obtain x where x: "minimax self b depth NegInf PosInf maximizing = Fin x"
    using minimax_Fin by blast
  have "window_agrees NegInf PosInf (Fin x) (minimax_exhaustive self b depth maximizing)"
    using minimax_agrees[of NegInf PosInf self b depth maximizing] x by simp
  then have "Fin x = minimax_exhaustive self b depth maximizing"
    by (simp add: window_agrees_def)
  then show ?thesis by (intro exI[of _ x]) (rule sym)
qed

lemma best_move_loop_correct:
  assumes "alpha \<noteq> PosInf"
  shows "snd (best_move_loop self b moves bm alpha alpha PosInf)
           = max alpha (maximum (map (exhaustive_move_score self b) moves))
       \<and> ((snd (best_move_loop self b moves bm alpha alpha PosInf) = alpha
            \<and> fst (best_move_loop self b moves bm alpha alpha PosInf) = bm)
          \<or> (alpha < snd (best_move_loop self b moves bm alpha alpha PosInf)
             \<and> (\<exists>m \<in> set moves.
                   fst (best_move_loop self b moves bm alpha alpha PosInf) = Some m
                   \<and> exhaustive_move_score self b m
                       = snd (best_move_loop self b moves bm alpha alpha PosInf))))"
  using assms
proof (induction moves arbitrary: bm alpha)
  case Nil
  show ?case by simp
next
  case (Cons move rest)
  define child where "child = snd (make_move (copy_board b) move False)"
  define v where "v = minimax self child (nat (difficulty self - 1)) alpha PosInf False"
  define e where "e = exhaustive_move_score self b move"
  define M where "M = maximum (map (exhaustive_move_score self b) rest)"
  obtain x where x: "v = Fin x" unfolding v_def using minimax_Fin by blast
  have lt: "alpha < PosInf" using Cons.prems by (cases alpha) auto
  have hv: "window_agrees alpha PosInf v e"
    unfolding v_def e_def exhaustive_move_score_def child_def
    by (rule minimax_agrees[OF lt])
  have nocut: "\<not> PosInf \<le> max alpha v"
    using Cons.prems x by (cases alpha) auto
  show ?case
  proof (cases "alpha < v")
    case True
    have ve: "v = e" using hv True x by (auto simp: window_agrees_def)
    have mx: "max alpha v = v" by (rule max.absorb2) (rule less_imp_le[OF True])
    have step: "best_move_loop self b (move # rest) bm alpha alpha PosInf
                  = best_move_loop self b rest (Some move) v v PosInf"
      using True nocut mx by (simp add: Let_def v_def[symmetric] child_def[symmetric])
    have IH: "snd (best_move_loop self b rest (Some move) v v PosInf) = max v M
       \<and> ((snd (best_move_loop self b rest (Some move) v v PosInf) = v
            \<and> fst (best_move_loop self b rest (Some move) v v PosInf) = Some move)
          \<or> (v < snd (best_move_loop self b rest (Some move) v v PosInf)
             \<and> (\<exists>m \<in> set rest.
                   fst (best_move_loop self b rest (Some move) v v PosInf) = Some m
                   \<and> exhaustive_move_score self b m
                       = snd (best_move_loop self b rest (Some move) v v PosInf))))"
      unfolding M_def by (rule Cons.IH) (simp add: x)
    have av: "alpha \<le> v" by (rule less_imp_le[OF True])
    have le: "alpha \<le> max v M" using av by (simp add: le_max_iff_disj)
    have "max alpha (max e M) = max v M" unfolding ve[symmetric] by (rule max.absorb2[OF le])
    moreover have "alpha < max v M" using True by (simp add: less_max_iff_disj)
    ultimately show ?thesis
      unfolding step using IH ve True
      by (auto simp: e_def[symmetric] M_def[symmetric])
  next
    case False
    then have va: "v \<le> alpha" by simp
    have ev: "e \<le> alpha" using hv va by (auto simp: window_agrees_def)
    have mx: "max alpha v = alpha" by (rule max.absorb1) (rule va)
    have step: "best_move_loop self b (move # rest) bm alpha alpha PosInf
                  = best_move_loop self b rest bm alpha alpha PosInf"
      using False nocut mx by (simp add: Let_def v_def[symmetric] child_def[symmetric])
    have "max alpha (max e M) = max (max alpha e) M" by (simp add: max.assoc)
    also have "max alpha e = alpha" by (rule max.absorb1[OF ev])
    finally have "max alpha (max e M) = max alpha M" .
    then show ?thesis
      unfolding step using Cons.IH[OF Cons.prems, of bm]
      by (auto simp: e_def[symmetric] M_def[symmetric])
  qed
qed

lemma maximum_Fin:
  assumes "xs \<noteq> []" and "\<And>x. x \<in> set xs \<Longrightarrow> \<exists>i. x = Fin i"
  shows "NegInf < maximum xs"
proof (cases xs)
  case Nil
  then show ?thesis using assms by simp
next
  case (Cons y ys)
  obtain i where "y = Fin i" using assms(2)[of y] Cons by auto
  then show ?thesis using Cons by (simp add: less_max_iff_disj)
qed

lemma search_best_move_correct:
  assumes "legal_moves \<noteq> []"
  shows "\<exists>m \<in> set legal_moves.
           fst (search_best_move self b legal_moves) = Some m
         \<and> snd (search_best_move self b legal_moves)
             = maximum (map (exhaustive_move_score self b) legal_moves)
         \<and> exhaustive_move_score self b m
             = maximum (map (exhaustive_move_score self b) legal_moves)"
proof -
  let ?r = "best_move_loop self b (order_moves self b legal_moves) None NegInf NegInf PosInf"
  let ?M = "maximum (map (exhaustive_move_score self b) legal_moves)"
  have c: "snd ?r = max NegInf (maximum (map (exhaustive_move_score self b) (order_moves self b legal_moves)))
       \<and> ((snd ?r = NegInf \<and> fst ?r = None)
          \<or> (NegInf < snd ?r
             \<and> (\<exists>m \<in> set (order_moves self b legal_moves).
                   fst ?r = Some m \<and> exhaustive_move_score self b m = snd ?r)))"
    by (rule best_move_loop_correct) simp
  have s: "snd ?r = ?M" using c by (simp add: maximum_order_moves)
  have "NegInf < ?M"
    by (rule maximum_Fin) (use assms in \<open>auto simp: exhaustive_move_score_def minimax_exhaustive_Fin\<close>)
  then show ?thesis using c s by (auto simp: search_best_move_def)
qed

lemma maximum_ge: "x \<in> set xs \<Longrightarrow> x \<le> maximum xs"
  by (induction xs) (auto simp: le_max_iff_disj)

subsection \<open>The move chosen by \<open>get_best_move\<close>\<close>

text \<open>
  C3, as amended. For a bot built with a difficulty of at least 2 (2 to 6 after the
  clamp) and a position in which the bot's side has a legal move, \<open>get_best_move\<close>
  returns a legal move whose exhaustive minimax score at the bot's depth is the best
  exhaustive score over all legal moves, and the score the search reports is that
  score: pruning and move ordering do not change the result.
\<close>

theorem alpha_beta_equivalence:
  assumes "2 \<le> d" and "generate_legal_moves b side \<noteq> []"
  shows "\<exists>m \<in> set (generate_legal_moves b side).
           get_best_move (new_ChessBot side d) b rnd = Some m
         \<and> snd (search_best_move (new_ChessBot side d) b (generate_legal_moves b side))
             = exhaustive_best_score (new_ChessBot side d) b
         \<and> exhaustive_move_score (new_ChessBot side d) b m
             = exhaustive_best_score (new_ChessBot side d) b"
proof -
  have d: "difficulty (new_ChessBot side d) \<noteq> 1" "color (new_ChessBot side d) = side"
    using assms(1) by (auto simp: new_ChessBot_def)
  show ?thesis
    using search_best_move_correct[OF assms(2), of "new_ChessBot side d" b] d assms(2)
    by (auto simp: get_best_move_def exhaustive_best_score_def Let_def)
qed

theorem alpha_beta_equivalence_witness:
  "(2::int) \<le> 2 \<and> generate_legal_moves new_ChessBoard WHITE \<noteq> []
   \<and> (\<exists>m \<in> set (generate_legal_moves new_ChessBoard WHITE).
           get_best_move (new_ChessBot WHITE 2) new_ChessBoard 0 = Some m
         \<and> snd (search_best_move (new_ChessBot WHITE 2) new_ChessBoard
                  (generate_legal_moves new_ChessBoard WHITE))
             = exhaustive_best_score (new_ChessBot WHITE 2) new_ChessBoard
         \<and> exhaustive_move_score (new_ChessBot WHITE 2) new_ChessBoard m
             = exhaustive_best_score (new_ChessBot WHITE 2) new_ChessBoard)"
proof -
  have h1: "(2::int) \<le> 2" by simp
  have h2: "generate_legal_moves new_ChessBoard WHITE \<noteq> []" by code_simp
  show ?thesis using h1 h2 alpha_beta_equivalence[OF h1 h2, of 0] by blast
qed

text \<open>
  C3 as stated fails at difficulty 1, where \<open>get_best_move\<close> skips the search and returns
  the move the random index picks: from the starting position index 0 picks a2-a3,
  whose exhaustive score at depth 1 is below that of e2-e4.
\<close>

theorem random_choice_counterexample:
  "get_best_move (new_ChessBot WHITE 1) new_ChessBoard 0 = Some (new_Move (6, 0) (5, 0))
   \<and> exhaustive_move_score (new_ChessBot WHITE 1) new_ChessBoard (new_Move (6, 0) (5, 0))
       \<noteq> exhaustive_best_score (new_ChessBot WHITE 1) new_ChessBoard"
proof -
  have g: "get_best_move (new_ChessBot WHITE 1) new_ChessBoard 0 = Some (new_Move (6, 0) (5, 0))"
    by code_simp
  have low: "exhaustive_move_score (new_ChessBot WHITE 1) new_ChessBoard (new_Move (6, 0) (5, 0))
               = Fin (- 10)"
    by code_simp
  have high: "exhaustive_move_score (new_ChessBot WHITE 1) new_ChessBoard (new_Move (6, 4) (4, 4))
                = Fin 160"
    by code_simp
  have mem: "new_Move (6, 4) (4, 4) \<in> set (generate_legal_moves new_ChessBoard WHITE)"
    by code_simp
  have "Fin 160 \<le> exhaustive_best_score (new_ChessBot WHITE 1) new_ChessBoard"
    unfolding exhaustive_best_score_def high[symmetric]
    by (rule maximum_ge) (use mem in \<open>simp add: new_ChessBot_def\<close>)
  then have "exhaustive_best_score (new_ChessBot WHITE 1) new_ChessBoard \<noteq> Fin (- 10)"
    by (cases "exhaustive_best_score (new_ChessBot WHITE 1) new_ChessBoard") auto
  then show ?thesis using g low by simp
qed

text \<open>
  \<open>get_best_move\<close> asks the generator for the moves of the bot's own colour: it returns
  no move exactly when that list is empty, and a move it returns is in that list.
\<close>

lemma get_best_move_own_colour:
  "(get_best_move (new_ChessBot side d) b rnd = None \<longleftrightarrow> generate_legal_moves b side = [])
   \<and> (\<forall>m. get_best_move (new_ChessBot side d) b rnd = Some m
          \<longrightarrow> m \<in> set (generate_legal_moves b side))"
proof (cases "generate_legal_moves b side = []")
  case True
  then show ?thesis by (simp add: get_best_move_def new_ChessBot_def)
next
  case False
  have c: "color (new_ChessBot side d) = side" by (simp add: new_ChessBot_def)
  show ?thesis
  proof (cases "difficulty (new_ChessBot side d) = 1")
    case True
    then show ?thesis using False c by (simp add: get_best_move_def Let_def)
  next
    case d: False
    then show ?thesis
      using search_best_move_correct[OF False, of "new_ChessBot side d" b] False c
      by (auto simp: get_best_move_def Let_def)
  qed
qed

text \<open>
  C7. For every position and every difficulty, a bot asked for its move on its own turn
  (the bot's colour is the side to move, as every caller has it) returns no move if and
  only if the side to move has no legal move; when a legal move exists, the move it
  returns is in the legal move list of the side to move.
\<close>

theorem get_best_move_none_iff:
  "(get_best_move (new_ChessBot (current_player b) d) b rnd = None
      \<longleftrightarrow> generate_legal_moves b (current_player b) = [])
   \<and> (\<forall>m. get_best_move (new_ChessBot (current_player b) d) b rnd = Some m
          \<longrightarrow> m \<in> set (generate_legal_moves b (current_player b)))"
  by (rule get_best_move_own_colour)

theorem get_best_move_none_iff_witness:
  "get_best_move (new_ChessBot (current_player new_ChessBoard) 1) new_ChessBoard 0
     = Some (new_Move (6, 0) (5, 0))
   \<and> new_Move (6, 0) (5, 0) \<in> set (generate_legal_moves new_ChessBoard (current_player new_ChessBoard))
   \<and> generate_legal_moves stalemate_position (current_player stalemate_position) = []
   \<and> get_best_move (new_ChessBot (current_player stalemate_position) 3) stalemate_position 0 = None"
proof -
  have g: "get_best_move (new_ChessBot (current_player new_ChessBoard) 1) new_ChessBoard 0
             = Some (new_Move (6, 0) (5, 0))"
    by code_simp
  have e: "generate_legal_moves stalemate_position (current_player stalemate_position) = []"
    by code_simp
  show ?thesis
    using g e get_best_move_none_iff[of new_ChessBoard 1 0]
      get_best_move_none_iff[of stalemate_position 3 0]
    by blast
qed

subsection \<open>The no-progress counter\<close>

text \<open>
  C1. The claim says that a move that is neither a pawn move nor a capture increments
  the counter. \<open>make_move\<close> tests the destination square after the piece has been put
  there, so the test always succeeds: from the starting position the knight move
  g1-f3 to an empty square leaves the counter at 0 instead of 1.
\<close>

theorem halfmove_clock_reset_on_quiet_move:
  "fst (make_move new_ChessBoard (new_Move (7, 6) (5, 5)) True)
   \<and> map_option ptype (get_piece new_ChessBoard 7 6) = Some KNIGHT
   \<and> get_piece new_ChessBoard 5 5 = None
   \<and> halfmove_clock new_ChessBoard = 0
   \<and> halfmove_clock (snd (make_move new_ChessBoard (new_Move (7, 6) (5, 5)) True)) = 0"
  by code_simp

subsection \<open>Legality closure\<close>

lemma legality_closure_side_to_move:
  "m \<in> set (generate_legal_moves b (current_player b)) \<Longrightarrow>
   \<not> is_in_check (snd (make_move (copy_board b) m False)) (current_player b)"
  by (auto simp: generate_legal_moves_def is_legal_move_def make_move_def copy_board_def)

text \<open>
  C2. \<open>is_legal_move\<close> tests the king of the board's side to move, not of the side that
  \<open>generate_legal_moves\<close> was asked for. With White to move, the list for Black contains
  the move of a pinned black rook, after which the black king is in check.
\<close>

theorem pinned_piece_move_returned:
  "current_player pin_position = WHITE
   \<and> new_Move (1, 4) (1, 5) \<in> set (generate_legal_moves pin_position BLACK)
   \<and> is_in_check (snd (make_move (copy_board pin_position) (new_Move (1, 4) (1, 5)) False)) BLACK"
  by code_simp

subsection \<open>The fifty-move draw\<close>

text \<open>
  C5 as stated fails where the side to move is checkmated: \<open>is_game_over\<close> tests
  checkmate and stalemate before the counter.
\<close>

theorem checkmate_precedes_fifty_move_draw:
  "halfmove_clock mate_position \<ge> 100
   \<and> is_game_over mate_position = (True, Some ''Checkmate! White wins!'')
   \<and> is_game_over mate_position \<noteq> (True, Some ''Draw by 50-move rule!'')"
  by code_simp

text \<open>
  C5, as amended. When the no-progress counter is at least 100 the game is over, and
  if the side to move has a legal move (it is neither checkmated nor stalemated),
  \<open>is_game_over\<close> reports the draw by the 50-move rule, whatever the material on the
  board.
\<close>

theorem fifty_move_draw:
  assumes "100 \<le> halfmove_clock b"
  shows "fst (is_game_over b)
       \<and> (generate_legal_moves b (current_player b) \<noteq> []
            \<longrightarrow> is_game_over b = (True, Some ''Draw by 50-move rule!''))"
  using assms by (simp add: is_game_over_def is_checkmate_def is_stalemate_def Let_def)

theorem fifty_move_draw_witness:
  "100 \<le> halfmove_clock (new_ChessBoard\<lparr>halfmove_clock := 100\<rparr>)
   \<and> generate_legal_moves (new_ChessBoard\<lparr>halfmove_clock := 100\<rparr>)
        (current_player (new_ChessBoard\<lparr>halfmove_clock := 100\<rparr>)) \<noteq> []
   \<and> is_game_over (new_ChessBoard\<lparr>halfmove_clock := 100\<rparr>) = (True, Some ''Draw by 50-move rule!'')"
proof -
  have h1: "100 \<le> halfmove_clock (new_ChessBoard\<lparr>halfmove_clock := 100\<rparr>)" by simp
  have h2: "generate_legal_moves (new_ChessBoard\<lparr>halfmove_clock := 100\<rparr>)
        (current_player (new_ChessBoard\<lparr>halfmove_clock := 100\<rparr>)) \<noteq> []"
    by code_simp
  show ?thesis using h1 h2 fifty_move_draw[OF h1] by blast
qed

subsection \<open>Terminal scores of the search\<close>

lemma no_legal_moves_is_terminal:
  "generate_legal_moves b (current_player b) = [] \<Longrightarrow> fst (is_game_over b)"
  by (simp add: is_game_over_def is_checkmate_def is_stalemate_def Let_def)


lemma wins_in_results:
  "sublist ''wins'' ''Checkmate! White wins!''" "sublist ''wins'' ''Checkmate! Black wins!''"
  "sublist ''White wins'' ''Checkmate! White wins!''" "sublist ''Black wins'' ''Checkmate! Black wins!''"
  "\<not> sublist ''Black wins'' ''Checkmate! White wins!''" "\<not> sublist ''White wins'' ''Checkmate! Black wins!''"
  "\<not> sublist ''wins'' ''Stalemate! It's a draw!''" "\<not> sublist ''wins'' ''Draw by 50-move rule!''"
  by code_simp+


lemma terminal_score_game_over:
  assumes "fst (is_game_over b)"
  shows "terminal_score self (the (snd (is_game_over b))) depth
           = (if is_checkmate b (current_player b)
              then (if current_player b \<noteq> color self then Fin (10000 + int depth)
                    else Fin (- 10000 - int depth))
              else Fin 0)"
proof (cases "is_checkmate b (current_player b)")
  case True
  then show ?thesis
    by (cases "current_player b"; cases "color self")
       (simp_all add: is_game_over_def terminal_score_def wins_in_results)
next
  case False
  then show ?thesis using assms
    by (auto simp: is_game_over_def terminal_score_def wins_in_results split: if_splits)
qed


lemma minimax_game_over:
  assumes "fst (is_game_over b)"
  shows "minimax self b depth alpha beta maximizing
           = terminal_score self (the (snd (is_game_over b))) depth"
  using assms by (cases depth; cases "is_game_over b") auto

text \<open>
  C6. At a node that \<open>is_game_over\<close> reports as over, \<open>minimax\<close> returns 10000 + depth
  when the side to move is checkmated and is not the bot's (the bot wins),
  -10000 - depth when the bot's side is checkmated, and 0 for stalemate and for the
  50-move draw, depth being the remaining depth. A node where the side to move has no
  legal move and is not checkmated scores 0; every node without legal moves is terminal
  (\<open>no_legal_moves_is_terminal\<close>), so the test \<open>if not legal_moves\<close> after the terminal
  test is never reached with an empty list.
\<close>

theorem minimax_terminal_scores:
  "(fst (is_game_over b) \<longrightarrow>
      minimax self b depth alpha beta maximizing
        = (if is_checkmate b (current_player b)
           then (if current_player b \<noteq> color self then Fin (10000 + int depth)
                 else Fin (- 10000 - int depth))
           else Fin 0))
   \<and> (generate_legal_moves b (current_player b) = [] \<and> \<not> is_checkmate b (current_player b) \<longrightarrow>
        minimax self b depth alpha beta maximizing = Fin 0)"
proof (intro conjI impI)
  assume "fst (is_game_over b)"
  then show "minimax self b depth alpha beta maximizing
        = (if is_checkmate b (current_player b)
           then (if current_player b \<noteq> color self then Fin (10000 + int depth)
                 else Fin (- 10000 - int depth))
           else Fin 0)"
    by (simp add: minimax_game_over terminal_score_game_over)
next
  assume a: "generate_legal_moves b (current_player b) = [] \<and> \<not> is_checkmate b (current_player b)"
  then have "fst (is_game_over b)" by (simp add: no_legal_moves_is_terminal)
  then show "minimax self b depth alpha beta maximizing = Fin 0"
    using a by (simp add: minimax_game_over terminal_score_game_over)
qed

theorem minimax_terminal_scores_witness:
  "fst (is_game_over mate_position)
   \<and> minimax (new_ChessBot WHITE 3) mate_position 2 NegInf PosInf False = Fin 10002
   \<and> minimax (new_ChessBot BLACK 3) mate_position 2 NegInf PosInf True = Fin (- 10002)
   \<and> generate_legal_moves stalemate_position (current_player stalemate_position) = []
   \<and> \<not> is_checkmate stalemate_position (current_player stalemate_position)
   \<and> minimax (new_ChessBot BLACK 3) stalemate_position 2 NegInf PosInf False = Fin 0"
proof -
  have h1: "fst (is_game_over mate_position)" by code_simp
  have c1: "is_checkmate mate_position (current_player mate_position)" by code_simp
  have p1: "current_player mate_position = BLACK" by code_simp
  have h2: "generate_legal_moves stalemate_position (current_player stalemate_position) = []"
    by code_simp
  have h3: "\<not> is_checkmate stalemate_position (current_player stalemate_position)" by code_simp
  show ?thesis
    using h1 c1 p1 h2 h3
      minimax_terminal_scores[of mate_position "new_ChessBot WHITE 3" 2 NegInf PosInf False]
      minimax_terminal_scores[of mate_position "new_ChessBot BLACK 3" 2 NegInf PosInf True]
      minimax_terminal_scores[of stalemate_position "new_ChessBot BLACK 3" 2 NegInf PosInf False]
    by (simp add: new_ChessBot_def)
qed


subsection \<open>Simulation does not touch the original position\<close>

lemma deepcopy_frame: "a < length s \<Longrightarrow> deepcopy s a = (length s, s @ [s ! a])"
  by (simp add: deepcopy_def)

lemma make_move_at_copy:
  "make_move_at (s @ [c]) (length s) move False
     = (fst (make_move c move False), s @ [snd (make_move c move False)])"
  by (simp add: make_move_at_def split: prod.splits)

lemma is_legal_move_at_eq:
  "a < length s \<Longrightarrow>
   is_legal_move_at s a move = (is_legal_move (s ! a) move, s @ [snd (make_move (s ! a) move False)])"
  unfolding is_legal_move_at_def deepcopy_def is_legal_move_def
  by (simp add: make_move_at_copy make_move_def nth_append)

lemma legal_filter_at_eq:
  "a < length s \<Longrightarrow>
   \<exists>ext. legal_filter_at s a moves = (filter (is_legal_move (s ! a)) moves, s @ ext)"
proof (induction moves arbitrary: s)
  case Nil
  show ?case by simp
next
  case (Cons move rest)
  let ?s1 = "s @ [snd (make_move (s ! a) move False)]"
  have a1: "a < length ?s1" using Cons.prems by simp
  obtain ext where e: "legal_filter_at ?s1 a rest = (filter (is_legal_move (?s1 ! a)) rest, ?s1 @ ext)"
    using Cons.IH[OF a1] by blast
  have same: "?s1 ! a = s ! a" using Cons.prems by (simp add: nth_append)
  show ?case
    using Cons.prems e same by (auto simp: is_legal_move_at_eq)
qed

lemma legal_pieces_at_eq:
  "a < length s \<Longrightarrow>
   \<exists>ext. legal_pieces_at s a pieces =
     (concat (map (\<lambda>(row, col, piece).
                filter (is_legal_move (s ! a)) (generate_piece_moves (s ! a) row col piece)) pieces),
      s @ ext)"
proof (induction pieces arbitrary: s)
  case Nil
  show ?case by simp
next
  case (Cons p rest)
  obtain row col piece where p: "p = (row, col, piece)" by (cases p) auto
  obtain e1 where e1: "legal_filter_at s a (generate_piece_moves (s ! a) row col piece)
      = (filter (is_legal_move (s ! a)) (generate_piece_moves (s ! a) row col piece), s @ e1)"
    using legal_filter_at_eq[OF Cons.prems] by blast
  have a1: "a < length (s @ e1)" using Cons.prems by simp
  have same: "(s @ e1) ! a = s ! a" using Cons.prems by (simp add: nth_append)
  obtain e2 where e2: "legal_pieces_at (s @ e1) a rest =
     (concat (map (\<lambda>(row, col, piece).
                filter (is_legal_move (s ! a)) (generate_piece_moves (s ! a) row col piece)) rest),
      (s @ e1) @ e2)"
    using Cons.IH[OF a1] same by auto
  show ?case using p e1 e2 by auto
qed

lemma generate_legal_moves_at_eq:
  "a < length s \<Longrightarrow>
   \<exists>ext. generate_legal_moves_at s a side = (generate_legal_moves (s ! a) side, s @ ext)"
  using legal_pieces_at_eq[of a s "get_all_pieces (s ! a) side"]
  by (simp add: generate_legal_moves_at_def generate_legal_moves_def)

lemma move_priority_at_eq:
  "a < length s \<Longrightarrow>
   move_priority_at self s a move
     = (move_priority self (s ! a) move, s @ [snd (make_move (s ! a) move False)])"
  unfolding move_priority_at_def move_priority_def deepcopy_def copy_board_def
  by (simp add: make_move_at_copy Let_def nth_append)

lemma priorities_at_eq:
  "a < length s \<Longrightarrow>
   \<exists>ext. priorities_at self s a moves = (map (move_priority self (s ! a)) moves, s @ ext)"
proof (induction moves arbitrary: s)
  case Nil
  show ?case by simp
next
  case (Cons move rest)
  obtain e1 where e1: "move_priority_at self s a move = (move_priority self (s ! a) move, s @ e1)"
    using move_priority_at_eq[OF Cons.prems] by simp
  have a1: "a < length (s @ e1)" using Cons.prems by simp
  have same: "(s @ e1) ! a = s ! a" using Cons.prems by (simp add: nth_append)
  obtain e2 where e2: "priorities_at self (s @ e1) a rest
      = (map (move_priority self (s ! a)) rest, (s @ e1) @ e2)"
    using Cons.IH[OF a1] same by auto
  show ?case using e1 e2 by auto
qed

lemma sort_key_zip_map:
  "map snd (sort_key (\<lambda>(k, m). g k) (zip (map f xs) xs)) = sort_key (\<lambda>m. g (f m)) xs"
proof -
  have z: "zip (map f xs) xs = map (\<lambda>m. (f m, m)) xs"
    by (induction xs) auto
  have "sort_key (\<lambda>(k, m). g k) (map (\<lambda>m. (f m, m)) xs)
          = map (\<lambda>m. (f m, m)) (sort_key (\<lambda>m. g (f m)) xs)"
  proof (induction xs)
    case Nil
    show ?case by simp
  next
    case (Cons x xs)
    have ins: "insort_key (\<lambda>(k, m). g k) (f x, x) (map (\<lambda>m. (f m, m)) ys)
                 = map (\<lambda>m. (f m, m)) (insort_key (\<lambda>m. g (f m)) x ys)" for ys
      by (induction ys) auto
    show ?case using Cons by (simp add: ins)
  qed
  then show ?thesis by (simp add: z comp_def)
qed

lemma order_moves_at_eq:
  assumes a: "a < length s"
  shows "\<exists>ext. order_moves_at self s a moves = (order_moves self (s ! a) moves, s @ ext)"
proof -
  obtain e where e: "priorities_at self s a moves = (map (move_priority self (s ! a)) moves, s @ e)"
    using priorities_at_eq[OF a] by blast
  show ?thesis
    using e by (simp add: order_moves_at_def order_moves_def sort_key_zip_map)
qed

lemma evaluate_position_restores: "snd (evaluate_position self b) = b"
  by (simp add: evaluate_position_def Let_def)

lemma evaluate_position_at_eq:
  assumes a: "a < length s"
  shows "\<exists>ext. evaluate_position_at self s a = (fst (evaluate_position self (s ! a)), s @ ext)"
proof -
  let ?opp = "if color self = WHITE then BLACK else WHITE"
  obtain e1 where e1: "generate_legal_moves_at s a (color self)
      = (generate_legal_moves (s ! a) (color self), s @ e1)"
    using generate_legal_moves_at_eq[OF a] by blast
  let ?s2 = "(s @ e1)[a := ((s @ e1) ! a)\<lparr>current_player := ?opp\<rparr>]"
  have a2: "a < length ?s2" using a by simp
  have s2a: "?s2 ! a = (s ! a)\<lparr>current_player := ?opp\<rparr>" using a by (simp add: nth_append)
  obtain e2 where e2: "generate_legal_moves_at ?s2 a ?opp
      = (generate_legal_moves ((s ! a)\<lparr>current_player := ?opp\<rparr>) ?opp, ?s2 @ e2)"
    using generate_legal_moves_at_eq[OF a2, of ?opp] s2a by auto
  have restored: "(?s2 @ e2)[a := ((?s2 @ e2) ! a)\<lparr>current_player := current_player ((s @ e1) ! a)\<rparr>]
                = s @ e1 @ e2"
    using a by (simp add: nth_append list_update_append)
  show ?thesis
    unfolding evaluate_position_at_def evaluate_position_def
    using e1 e2 restored a
    by (simp add: Let_def nth_append)
qed

text \<open>
  C8. With boards as objects in a store, the legality filter, legal-move generation,
  move ordering and position evaluation (with its temporary write to the side to move)
  leave every board that existed before the call, the original position among them,
  exactly as it was: the store after the call is the store before it, followed by the
  copies the call made. The lemmas above show that each operation also returns what
  the value-level function returns.
\<close>

theorem simulation_leaves_position:
  assumes "a < length s"
  shows "take (length s) (snd (is_legal_move_at s a move)) = s
       \<and> take (length s) (snd (generate_legal_moves_at s a side)) = s
       \<and> take (length s) (snd (order_moves_at self s a moves)) = s
       \<and> take (length s) (snd (evaluate_position_at self s a)) = s"
proof -
  obtain e2 where e2: "generate_legal_moves_at s a side = (generate_legal_moves (s ! a) side, s @ e2)"
    using generate_legal_moves_at_eq[OF assms] by blast
  obtain e3 where e3: "order_moves_at self s a moves = (order_moves self (s ! a) moves, s @ e3)"
    using order_moves_at_eq[OF assms] by blast
  obtain e4 where e4: "evaluate_position_at self s a = (fst (evaluate_position self (s ! a)), s @ e4)"
    using evaluate_position_at_eq[OF assms] by blast
  show ?thesis
    using assms e2 e3 e4 by (simp add: is_legal_move_at_eq)
qed

theorem simulation_leaves_position_witness:
  "0 < length [new_ChessBoard]
   \<and> take (length [new_ChessBoard])
        (snd (is_legal_move_at [new_ChessBoard] 0 (new_Move (6, 4) (4, 4)))) = [new_ChessBoard]
   \<and> take (length [new_ChessBoard])
        (snd (generate_legal_moves_at [new_ChessBoard] 0 WHITE)) = [new_ChessBoard]
   \<and> take (length [new_ChessBoard])
        (snd (order_moves_at (new_ChessBot WHITE 3) [new_ChessBoard] 0
               [new_Move (6, 4) (4, 4), new_Move (7, 6) (5, 5)])) = [new_ChessBoard]
   \<and> take (length [new_ChessBoard])
        (snd (evaluate_position_at (new_ChessBot WHITE 3) [new_ChessBoard] 0)) = [new_ChessBoard]"
proof -
  have h: "0 < length [new_ChessBoard]" by simp
  show ?thesis
    using h simulation_leaves_position[OF h, of "new_Move (6, 4) (4, 4)" WHITE
            "new_ChessBot WHITE 3" "[new_Move (6, 4) (4, 4), new_Move (7, 6) (5, 5)]"]
    by blast
qed

subsection \<open>The bot's constructor\<close>

text \<open>
  C10. Whatever integer is passed as the difficulty, \<open>ChessBot.__init__\<close> stores
  \<open>max(1, min(d, 6))\<close>, so the stored difficulty is always between 1 and 6.
\<close>

theorem difficulty_clamped:
  "difficulty (new_ChessBot side d) = max 1 (min d 6)
   \<and> 1 \<le> difficulty (new_ChessBot side d) \<and> difficulty (new_ChessBot side d) \<le> 6"
  by (simp add: new_ChessBot_def)

end
